theory Spec2Isabelle
  imports Main
begin

section \<open>Strings and numbers as the TypeScript source uses them\<close>

text \<open>
  JavaScript strings are modelled as \<open>string\<close> (a list of 8-bit characters), which is exact
  for ASCII text. White space is the ASCII part of what \<^verbatim>\<open>trim()\<close> and the regular
  expression class \<^verbatim>\<open>\s\<close> accept (tab, line feed, vertical tab, form feed, carriage
  return, space); the non-ASCII white space of ECMAScript is outside the model.
\<close>

definition isWhiteSpace :: "char \<Rightarrow> bool" where
  "isWhiteSpace c = (c \<in> set [CHR 0x09, CHR 0x0A, CHR 0x0B, CHR 0x0C, CHR 0x0D, CHR 0x20])"

text \<open>\<^verbatim>\<open>s.trim()\<close>\<close>

definition trim :: "string \<Rightarrow> string" where
  "trim s = rev (dropWhile isWhiteSpace (rev (dropWhile isWhiteSpace s)))"

text \<open>\<^verbatim>\<open>s.startsWith(p)\<close>, \<^verbatim>\<open>s.endsWith(p)\<close>, \<^verbatim>\<open>s.includes(p)\<close>\<close>

definition startsWith :: "string \<Rightarrow> string \<Rightarrow> bool" where
  "startsWith s p = (take (length p) s = p)"

definition endsWith :: "string \<Rightarrow> string \<Rightarrow> bool" where
  "endsWith s p = (length p \<le> length s \<and> drop (length s - length p) s = p)"

fun str_includes :: "string \<Rightarrow> string \<Rightarrow> bool" where
  "str_includes [] p = (p = [])"
| "str_includes (c # cs) p = (startsWith (c # cs) p \<or> str_includes cs p)"

text \<open>\<^verbatim>\<open>s.split(d)\<close> for a one-character separator: \<^verbatim>\<open>"".split("\n")\<close> is \<^verbatim>\<open>[""]\<close>.\<close>

fun split_on :: "char \<Rightarrow> string \<Rightarrow> string list" where
  "split_on d [] = [[]]"
| "split_on d (c # cs) =
     (if c = d then [] # split_on d cs
      else (case split_on d cs of
              [] \<Rightarrow> [[c]]
            | r # rs \<Rightarrow> (c # r) # rs))"

text \<open>
  \<^verbatim>\<open>s.split(/\s+/)\<close>: every maximal run of white space separates two fields, so a string
  that begins or ends with white space gets an empty first or last field.
\<close>

function split_ws :: "string \<Rightarrow> string list" where
  "split_ws [] = [[]]"
| "split_ws (c # cs) =
     (if isWhiteSpace c then [] # split_ws (dropWhile isWhiteSpace cs)
      else (case split_ws cs of
              [] \<Rightarrow> [[c]]
            | r # rs \<Rightarrow> (c # r) # rs))"
  by pat_completeness auto
termination
  by (relation "measure length") (auto simp: length_dropWhile_le less_Suc_eq_le)

text \<open>Decimal rendering of a number inside a template string.\<close>

definition digit_char :: "nat \<Rightarrow> char" where
  "digit_char d = char_of (48 + d)"

function show_nat :: "nat \<Rightarrow> string" where
  "show_nat n = (if n < 10 then [digit_char n] else show_nat (n div 10) @ [digit_char (n mod 10)])"
  by pat_completeness auto
termination
  by (relation "measure id") auto

definition show_int :: "int \<Rightarrow> string" where
  "show_int i = (if i < 0 then CHR ''-'' # show_nat (nat (- i)) else show_nat (nat i))"

text \<open>The operator \<^verbatim>\<open>a || b\<close> on strings: the empty string is falsy.\<close>

definition or_else :: "string \<Rightarrow> string \<Rightarrow> string" where
  "or_else a b = (if a = [] then b else a)"

section \<open>Data model (types.ts as used by the scripts)\<close>

record Config =
  watchInterval :: int
  concurrentJobs :: int
  addTimestamp :: bool
  skipExisting :: bool
  preserveStructure :: bool
  hashFile :: string
  fetchUrls :: bool
  fetchTimeout :: int
  userAgent :: string
  playwrightEnabled :: bool
  playwrightWait :: int
  playwrightTimeout :: int
  browserlessEnabled :: bool
  browserlessUrl :: string
  browserlessToken :: string
  maxRetries :: int
  retryDelay :: int
  kreuzbergConfig :: string
  ocrEnabled :: bool
  qualityProcessing :: bool
  inputDir :: string
  outputDir :: string
  errorDir :: string

record ProcessedFileEntry =
  hash :: string
  outputPath :: string
  processedAt :: string
  retries :: int

record ProcessedState =
  version :: string
  lastUpdated :: string
  files :: "string \<rightharpoonup> ProcessedFileEntry"

record FileEntry =
  path :: string
  relativePath :: string
  isDirectory :: bool
  isUrl :: bool

datatype job_status = Pending | Processing | Completed | Failed

text \<open>
  \<^verbatim>\<open>ProcessingJob\<close>; its fields \<^verbatim>\<open>id\<close>, \<^verbatim>\<open>retries\<close> and \<^verbatim>\<open>error\<close> are
  \<open>job_id\<close>, \<open>job_retries\<close> and \<open>job_error\<close> here (the short names are taken).
\<close>

record ProcessingJob =
  job_id :: string
  entry :: FileEntry
  status :: job_status
  job_retries :: int
  job_error :: "string option"
  startTime :: "nat option"
  endTime :: "nat option"

datatype fetch_method = NativeFetch | Playwright | Browserless

record FetchResult =
  url :: string
  html :: string
  success :: bool
  via :: fetch_method
  error :: "string option"

record UrlEntry =
  entry_url :: string
  filename :: "string option"

section \<open>The world outside the program\<close>

text \<open>
  What the runtime hands back to the program is data of the model: the result of spawning
  the \<^verbatim>\<open>kreuzberg\<close> command line, an HTTP exchange, a parsed JSON value, a parsed URL.
\<close>

datatype spawn_result =
    SpawnError string               \<comment> \<open>\<^verbatim>\<open>Bun.spawn\<close> or reading a pipe threw; the message\<close>
  | Exited int string string        \<comment> \<open>exit code, standard output, standard error\<close>

datatype http_result =
    NetError string                 \<comment> \<open>\<^verbatim>\<open>fetch\<close> or reading the body threw; the message\<close>
  | Response int string string      \<comment> \<open>status, status text, body\<close>

datatype json =
    JNull | JBool bool | JNum int | JStr string | JArr "json list" | JObj "(string \<times> json) list"

record parsed_url =
  protocol :: string
  hostname :: string
  pathname :: string

text \<open>
  Every effect on the outside is an event of the trace, in the order the program issues it;
  a spawn is recorded with what the command returned. \<open>Rename\<close> is \<^verbatim>\<open>renameSync\<close>, which
  processor.ts imports.
\<close>

datatype event =
    Spawn "string list" spawn_result
  | WriteFile string string
  | CopyFile string string
  | Rename string string
  | MkDir string
  | Sleep int
  | HttpGet string "(string \<times> string) list"
  | LaunchBrowser string
  | HttpPost string "(string \<times> string) list" string

record world =
  fs :: "string \<rightharpoonup> string"     \<comment> \<open>regular files: path to content\<close>
  dirs :: "string set"                \<comment> \<open>directories\<close>
  now :: nat                          \<comment> \<open>\<^verbatim>\<open>Date.now()\<close>\<close>
  trace :: "event list"

text \<open>
  The environment: the external command, the network, the browser, and the functions of the
  runtime's libraries the scripts call (node:path, node:crypto, JSON, URL, Date). They are
  parameters of the model; a command or request may answer differently every time, since it
  sees the world, whose trace grows with every call.
\<close>

record env =
  kreuzberg :: "world \<Rightarrow> string list \<Rightarrow> spawn_result"
  forceOcr :: bool                    \<comment> \<open>\<^verbatim>\<open>process.env.FORCE_OCR === "true"\<close>\<close>
  http_get :: "world \<Rightarrow> string \<Rightarrow> (string \<times> string) list \<Rightarrow> http_result"
  playwright_content :: "world \<Rightarrow> string \<Rightarrow> string + string"
  http_post :: "world \<Rightarrow> string \<Rightarrow> (string \<times> string) list \<Rightarrow> string \<Rightarrow> http_result"
  URL_parse :: "string \<Rightarrow> parsed_url option"
  md5 :: "string \<Rightarrow> string"
  toISOString :: "nat \<Rightarrow> string"
  JSON_parse :: "string \<Rightarrow> json option"
  JSON_stringify :: "ProcessedState \<Rightarrow> string"
  JSON_stringify_value :: "json \<Rightarrow> string"
  path_join :: "string \<Rightarrow> string \<Rightarrow> string"
  path_relative :: "string \<Rightarrow> string \<Rightarrow> string"
  path_dirname :: "string \<Rightarrow> string"
  path_basename :: "string \<Rightarrow> string \<Rightarrow> string"
  path_extname :: "string \<Rightarrow> string"

text \<open>
  File system primitives. Reading a path that is not a regular file throws (\<open>None\<close>);
  writing a file, copying onto a path and creating a directory succeed in the model.
\<close>

definition existsSync :: "world \<Rightarrow> string \<Rightarrow> bool" where
  "existsSync w p = (fs w p \<noteq> None \<or> p \<in> dirs w)"

definition readFileSync :: "world \<Rightarrow> string \<Rightarrow> string option" where
  "readFileSync w p = fs w p"

definition emit :: "event \<Rightarrow> world \<Rightarrow> world" where
  "emit e w = w\<lparr>trace := trace w @ [e]\<rparr>"

definition writeFileSync :: "string \<Rightarrow> string \<Rightarrow> world \<Rightarrow> world" where
  "writeFileSync p c w = emit (WriteFile p c) (w\<lparr>fs := (fs w)(p \<mapsto> c)\<rparr>)"

definition mkdirSync :: "string \<Rightarrow> world \<Rightarrow> world" where
  "mkdirSync p w = emit (MkDir p) (w\<lparr>dirs := insert p (dirs w)\<rparr>)"

text \<open>\<^verbatim>\<open>copyFileSync(src, dst)\<close> throws when the source cannot be read.\<close>

definition copyFileSync :: "string \<Rightarrow> string \<Rightarrow> world \<Rightarrow> world option" where
  "copyFileSync src dst w =
     (case fs w src of
        None \<Rightarrow> None
      | Some c \<Rightarrow> Some (emit (CopyFile src dst) (w\<lparr>fs := (fs w)(dst \<mapsto> c)\<rparr>)))"

text \<open>\<^verbatim>\<open>Bun.sleep(ms)\<close>: the clock moves on by the delay (a negative delay does not wait).\<close>

definition sleep :: "int \<Rightarrow> world \<Rightarrow> world" where
  "sleep ms w = emit (Sleep ms) (w\<lparr>now := now w + nat ms\<rparr>)"

text \<open>The events a run adds to the trace.\<close>

definition events_since :: "world \<Rightarrow> world \<Rightarrow> event list" where
  "events_since w w' = drop (length (trace w)) (trace w')"

section \<open>config.ts: validation\<close>

definition validateConfig :: "Config \<Rightarrow> string list" where
  "validateConfig config =
     (if watchInterval config < 1 then [''WATCH_INTERVAL must be at least 1 second''] else []) @
     (if concurrentJobs config < 1 then [''CONCURRENT_JOBS must be at least 1''] else []) @
     (if maxRetries config < 0 then [''MAX_RETRIES cannot be negative''] else [])"

section \<open>hash.ts: the ledger of processed files\<close>

definition STATE_VERSION :: string where
  "STATE_VERSION = ''1.0.0''"

definition calculateStringHash :: "env \<Rightarrow> string \<Rightarrow> string" where
  "calculateStringHash env content = md5 env content"

text \<open>\<^verbatim>\<open>calculateFileHash\<close> rejects (\<open>None\<close>) when the file cannot be read.\<close>

definition calculateFileHash :: "env \<Rightarrow> world \<Rightarrow> string \<Rightarrow> string option" where
  "calculateFileHash env w filePath = map_option (md5 env) (fs w filePath)"

text \<open>The object literal the three fall-back branches of \<^verbatim>\<open>loadProcessedState\<close> return.\<close>

definition freshState :: "env \<Rightarrow> world \<Rightarrow> ProcessedState" where
  "freshState env w =
     \<lparr>version = STATE_VERSION, lastUpdated = toISOString env (now w), files = Map.empty\<rparr>"

text \<open>
  \<^verbatim>\<open>state.version\<close> of a parsed JSON value: \<open>None\<close> is \<^verbatim>\<open>undefined\<close>. (Reading a
  property of \<^verbatim>\<open>null\<close> throws; \<open>loadProcessedState\<close> handles that value itself.)
\<close>

fun json_version :: "json \<Rightarrow> json option" where
  "json_version (JObj kvs) = map_of kvs ''version''"
| "json_version _ = None"

text \<open>
  \<^verbatim>\<open>loadProcessedState\<close> returns either one of its own literals or, when the version
  matches, the parsed value itself under the unchecked cast \<^verbatim>\<open>as ProcessedState\<close>.
\<close>

datatype loaded_state = Ledger ProcessedState | Unchecked json

definition loadProcessedState :: "env \<Rightarrow> world \<Rightarrow> string \<Rightarrow> loaded_state" where
  "loadProcessedState env w hashFilePath =
     (if \<not> existsSync w hashFilePath then Ledger (freshState env w)
      else (case readFileSync w hashFilePath of
              None \<Rightarrow> Ledger (freshState env w)
            | Some content \<Rightarrow>
                (case JSON_parse env content of
                   None \<Rightarrow> Ledger (freshState env w)
                 | Some JNull \<Rightarrow> Ledger (freshState env w)
                 | Some state \<Rightarrow>
                     if json_version state \<noteq> Some (JStr STATE_VERSION)
                     then Ledger (freshState env w)
                     else Unchecked state)))"

definition saveProcessedState ::
  "env \<Rightarrow> string \<Rightarrow> ProcessedState \<times> world \<Rightarrow> ProcessedState \<times> world" where
  "saveProcessedState env hashFilePath sw =
     (case sw of (state, w) \<Rightarrow>
        let state' = state\<lparr>lastUpdated := toISOString env (now w)\<rparr>;
            content = JSON_stringify env state'
        in (state', writeFileSync hashFilePath content w))"

definition isFileProcessed :: "ProcessedState \<Rightarrow> string \<Rightarrow> string \<Rightarrow> bool" where
  "isFileProcessed state inputPath currentHash =
     (case files state inputPath of
        None \<Rightarrow> False
      | Some e \<Rightarrow> hash e = currentHash)"

definition markFileProcessed ::
  "env \<Rightarrow> world \<Rightarrow> ProcessedState \<Rightarrow> string \<Rightarrow> string \<Rightarrow> string \<Rightarrow> int \<Rightarrow> ProcessedState" where
  "markFileProcessed env w state inputPath h outPath n =
     state\<lparr>files := (files state)(inputPath \<mapsto>
       \<lparr>hash = h, outputPath = outPath, processedAt = toISOString env (now w), retries = n\<rparr>)\<rparr>"

section \<open>processor.ts: extraction with retries and quarantine\<close>

text \<open>
  The timestamp of an output name:
  \<^verbatim>\<open>toISOString().replace(/[-:]/g, "").replace("T", "_").substring(0, 15)\<close>.
\<close>

fun replace_first :: "char \<Rightarrow> char \<Rightarrow> string \<Rightarrow> string" where
  "replace_first a b [] = []"
| "replace_first a b (c # cs) = (if c = a then b # cs else c # replace_first a b cs)"

definition outputTimestamp :: "env \<Rightarrow> world \<Rightarrow> string" where
  "outputTimestamp env w =
     take 15 (replace_first CHR ''T'' CHR ''_''
       (filter (\<lambda>c. c \<noteq> CHR ''-'' \<and> c \<noteq> CHR '':'') (toISOString env (now w))))"

definition generateOutputPath ::
  "env \<Rightarrow> string \<Rightarrow> string \<Rightarrow> string \<Rightarrow> Config \<Rightarrow> world \<Rightarrow> string \<times> world" where
  "generateOutputPath env inputPath inDir outDir config w =
     (let relPath = path_relative env inDir inputPath;
          dirName = path_dirname env relPath;
          baseName = path_basename env relPath (path_extname env relPath);
          outputFileName =
            (if addTimestamp config then baseName @ ''_'' @ outputTimestamp env w @ ''.md''
             else baseName @ ''.md'')
      in if preserveStructure config \<and> dirName \<noteq> ''.''
         then (let outputSubDir = path_join env outDir dirName
               in (path_join env outputSubDir outputFileName,
                   if \<not> existsSync w outputSubDir then mkdirSync outputSubDir w else w))
         else (path_join env outDir outputFileName, w))"

text \<open>The result object of \<^verbatim>\<open>extractDocument\<close>: success with the content, or the message.\<close>

datatype extract_result = Extracted string | ExtractFailed string

definition extractArgs :: "env \<Rightarrow> Config \<Rightarrow> world \<Rightarrow> string \<Rightarrow> string list" where
  "extractArgs env config w inputPath =
     [''extract'', inputPath, ''--format'', ''text''] @
     (if existsSync w (kreuzbergConfig config) then [''--config'', kreuzbergConfig config] else []) @
     (if ocrEnabled config then [''--ocr'', ''true''] else []) @
     (if forceOcr env then [''--force-ocr'', ''true''] else []) @
     (if qualityProcessing config then [''--quality'', ''true''] else [])"

text \<open>
  One call of the extraction gateway: the command is spawned once, and the call is an event
  of the trace. Every exception inside is caught and becomes a failed result.
\<close>

definition extractDocument ::
  "env \<Rightarrow> string \<Rightarrow> string \<Rightarrow> Config \<Rightarrow> world \<Rightarrow> extract_result \<times> world" where
  "extractDocument env inputPath outPath config w =
     (let cmd = ''kreuzberg'' # extractArgs env config w inputPath;
          r = kreuzberg env w cmd;
          w1 = emit (Spawn cmd r) w
      in case r of
           SpawnError message \<Rightarrow> (ExtractFailed message, w1)
         | Exited exitCode stdout stderr \<Rightarrow>
             if exitCode \<noteq> 0
             then (ExtractFailed (or_else stderr (''Exit code '' @ show_int exitCode)), w1)
             else (Extracted stdout, writeFileSync outPath stdout w1))"

definition errorLogText :: "env \<Rightarrow> world \<Rightarrow> string \<Rightarrow> string \<Rightarrow> string" where
  "errorLogText env w err inputPath =
     ''Error: '' @ err @ ''\<newline>Timestamp: '' @ toISOString env (now w) @
     ''\<newline>Original path: '' @ inputPath"

text \<open>
  \<^verbatim>\<open>moveToError\<close> copies the input into the error tree and writes the log beside the copy.
  When the copy throws, the exception is caught and the log is not written.
\<close>

definition moveToError :: "env \<Rightarrow> string \<Rightarrow> string \<Rightarrow> string \<Rightarrow> string \<Rightarrow> world \<Rightarrow> world" where
  "moveToError env inputPath inDir errDir err w =
     (let relPath = path_relative env inDir inputPath;
          errorPath = path_join env errDir relPath;
          errorLogPath = errorPath @ ''.error.txt'';
          errorSubDir = path_dirname env errorPath;
          w1 = (if \<not> existsSync w errorSubDir then mkdirSync errorSubDir w else w)
      in case copyFileSync inputPath errorPath w1 of
           None \<Rightarrow> w1
         | Some w2 \<Rightarrow> writeFileSync errorLogPath (errorLogText env w2 err inputPath) w2)"

text \<open>
  The retry loop of \<^verbatim>\<open>processJob\<close>, from \<open>attempt\<close> on. \<open>Inl\<close> is the early
  \<^verbatim>\<open>return job\<close> of a successful attempt; \<open>Inr\<close> is the loop running out, with the job
  and \<^verbatim>\<open>lastError\<close> as they stand.
\<close>

function retryLoop ::
  "env \<Rightarrow> Config \<Rightarrow> string \<Rightarrow> int \<Rightarrow> ProcessingJob \<Rightarrow> string \<Rightarrow> world \<Rightarrow>
     (ProcessingJob \<times> world) + (ProcessingJob \<times> string \<times> world)" where
  "retryLoop env config outPath attempt job lastError w =
     (if attempt \<le> maxRetries config
      then (case extractDocument env (path (entry job)) outPath config w of
              (Extracted content, w1) \<Rightarrow>
                Inl (job\<lparr>status := Completed, endTime := Some (now w1)\<rparr>, w1)
            | (ExtractFailed message, w1) \<Rightarrow>
                retryLoop env config outPath (attempt + 1)
                  (job\<lparr>job_retries := attempt\<rparr>)
                  (or_else message ''Unknown error'')
                  (if attempt < maxRetries config then sleep (retryDelay config) w1 else w1))
      else Inr (job, lastError, w))"
  by pat_completeness auto
termination
  by (relation "measure (\<lambda>(env, config, outPath, attempt, job, lastError, w).
        nat (maxRetries config + 1 - attempt))") auto

definition processJob ::
  "env \<Rightarrow> ProcessingJob \<Rightarrow> Config \<Rightarrow> world \<Rightarrow> ProcessingJob \<times> world" where
  "processJob env job config w =
     (let job1 = job\<lparr>status := Processing, startTime := Some (now w)\<rparr>
      in case generateOutputPath env (path (entry job1)) (inputDir config) (outputDir config)
                config w of
           (outPath, w1) \<Rightarrow>
             (case retryLoop env config outPath 1 job1 [] w1 of
                Inl (job2, w2) \<Rightarrow> (job2, w2)
              | Inr (job2, lastError, w2) \<Rightarrow>
                  (job2\<lparr>status := Failed, job_error := Some lastError, endTime := Some (now w2)\<rparr>,
                   moveToError env (path (entry job2)) (inputDir config) (errorDir config)
                     lastError w2)))"

text \<open>
  \<^verbatim>\<open>xs.slice(start, fin)\<close> of JavaScript: a negative index counts from the end, and both
  are clamped to the array.
\<close>

definition slice :: "'a list \<Rightarrow> int \<Rightarrow> int \<Rightarrow> 'a list" where
  "slice xs start fin =
     (let len = int (length xs);
          k = (if start < 0 then max (len + start) 0 else min start len);
          final = (if fin < 0 then max (len + fin) 0 else min fin len)
      in take (nat (final - k)) (drop (nat k) xs))"




section \<open>fetcher.ts: the three fetch layers and the URL list\<close>

definition fetchFailed :: "string \<Rightarrow> fetch_method \<Rightarrow> string \<Rightarrow> FetchResult" where
  "fetchFailed u m message = \<lparr>url = u, html = [], success = False, via = m, error = Some message\<rparr>"

definition fetchOk :: "string \<Rightarrow> fetch_method \<Rightarrow> string \<Rightarrow> FetchResult" where
  "fetchOk u m h = \<lparr>url = u, html = h, success = True, via = m, error = None\<rparr>"

text \<open>The check of layer 1 for a page that needs client-side rendering.\<close>

definition requiresJavaScript :: "string \<Rightarrow> bool" where
  "requiresJavaScript h =
     (str_includes h ''Please enable JavaScript'' \<or>
      (str_includes h ''noscript'' \<and> length h < 5000) \<or>
      (str_includes h ''__NEXT_DATA__'' \<and> \<not> str_includes h ''<main''))"

definition nativeHeaders :: "Config \<Rightarrow> (string \<times> string) list" where
  "nativeHeaders config =
     [(''User-Agent'', userAgent config),
      (''Accept'', ''text/html,application/xhtml+xml,application/xml;q=0.9,*/*;q=0.8''),
      (''Accept-Language'', ''en-US,en;q=0.5'')]"

definition fetchWithNative :: "env \<Rightarrow> string \<Rightarrow> Config \<Rightarrow> world \<Rightarrow> FetchResult \<times> world" where
  "fetchWithNative env u config w =
     (let r = http_get env w u (nativeHeaders config);
          w1 = emit (HttpGet u (nativeHeaders config)) w
      in case r of
           NetError message \<Rightarrow> (fetchFailed u NativeFetch message, w1)
         | Response code statusText body \<Rightarrow>
             if \<not> (200 \<le> code \<and> code \<le> 299)
             then (fetchFailed u NativeFetch (''HTTP '' @ show_int code @ '': '' @ statusText), w1)
             else if requiresJavaScript body
             then (fetchFailed u NativeFetch ''Page requires JavaScript rendering'', w1)
             else (fetchOk u NativeFetch body, w1))"

definition fetchWithPlaywright :: "env \<Rightarrow> string \<Rightarrow> Config \<Rightarrow> world \<Rightarrow> FetchResult \<times> world" where
  "fetchWithPlaywright env u config w =
     (if \<not> playwrightEnabled config then (fetchFailed u Playwright ''Playwright disabled'', w)
      else (let r = playwright_content env w u;
                w1 = emit (LaunchBrowser u) w
            in case r of
                 Inl message \<Rightarrow> (fetchFailed u Playwright message, w1)
               | Inr h \<Rightarrow> (fetchOk u Playwright h, w1)))"

definition browserlessHeaders :: "Config \<Rightarrow> (string \<times> string) list" where
  "browserlessHeaders config =
     (''Content-Type'', ''application/json'') #
     (if browserlessToken config \<noteq> []
      then [(''Authorization'', ''Bearer '' @ browserlessToken config)] else [])"

definition browserlessBody :: "env \<Rightarrow> string \<Rightarrow> Config \<Rightarrow> string" where
  "browserlessBody env u config =
     JSON_stringify_value env
       (JObj [(''url'', JStr u),
              (''waitForTimeout'', JNum (playwrightWait config)),
              (''gotoOptions'',
                 JObj [(''waitUntil'', JStr ''networkidle2''),
                       (''timeout'', JNum (playwrightTimeout config))])])"

definition fetchWithBrowserless :: "env \<Rightarrow> string \<Rightarrow> Config \<Rightarrow> world \<Rightarrow> FetchResult \<times> world" where
  "fetchWithBrowserless env u config w =
     (if \<not> browserlessEnabled config then (fetchFailed u Browserless ''Browserless disabled'', w)
      else (let target = browserlessUrl config @ ''/content'';
                hs = browserlessHeaders config;
                body = browserlessBody env u config;
                r = http_post env w target hs body;
                w1 = emit (HttpPost target hs body) w
            in case r of
                 NetError message \<Rightarrow> (fetchFailed u Browserless message, w1)
               | Response code statusText h \<Rightarrow>
                   if \<not> (200 \<le> code \<and> code \<le> 299)
                   then (fetchFailed u Browserless
                           (''Browserless HTTP '' @ show_int code @ '': '' @ statusText), w1)
                   else (fetchOk u Browserless h, w1)))"

text \<open>\<^verbatim>\<open>fetchUrl\<close> with its three layers (fetcher.ts, lines 157 to 179).\<close>

definition fetchUrl :: "env \<Rightarrow> string \<Rightarrow> Config \<Rightarrow> world \<Rightarrow> FetchResult \<times> world" where
  "fetchUrl env u config w =
     (case fetchWithNative env u config w of
        (r1, w1) \<Rightarrow>
          if success r1 then (r1, w1)
          else (case fetchWithPlaywright env u config w1 of
                  (r2, w2) \<Rightarrow>
                    if success r2 then (r2, w2)
                    else (case fetchWithBrowserless env u config w2 of
                            (r3, w3) \<Rightarrow>
                              if success r3 then (r3, w3)
                              else (fetchFailed u Browserless ''All fetch methods failed'', w3))))"

text \<open>\<^verbatim>\<open>content.split("\n").filter((line) => line.trim())\<close>\<close>

definition nonBlankLines :: "string \<Rightarrow> string list" where
  "nonBlankLines content = filter (\<lambda>line. trim line \<noteq> []) (split_on CHR 0x0A content)"

text \<open>
  One line of a URL list: \<open>None\<close> is the \<^verbatim>\<open>null\<close> of a comment line or of a first
  token that \<^verbatim>\<open>new URL\<close> rejects; \<^verbatim>\<open>parts[1]\<close> is \<^verbatim>\<open>undefined\<close> when there is no
  second token.
\<close>

definition parseUrlLine :: "env \<Rightarrow> string \<Rightarrow> UrlEntry option" where
  "parseUrlLine env line =
     (let trimmed = trim line
      in if startsWith trimmed ''#'' then None
         else (case split_ws trimmed of
                 [] \<Rightarrow> None
               | u # rest \<Rightarrow>
                   (case URL_parse env u of
                      None \<Rightarrow> None
                    | Some parsed \<Rightarrow>
                        Some \<lparr>entry_url = u,
                              filename = (case rest of [] \<Rightarrow> None | f # others \<Rightarrow> Some f)\<rparr>)))"

definition parseUrlFile :: "env \<Rightarrow> world \<Rightarrow> string \<Rightarrow> UrlEntry list" where
  "parseUrlFile env w filePath =
     (case fs w filePath of
        None \<Rightarrow> []
      | Some content \<Rightarrow> List.map_filter (parseUrlLine env) (nonBlankLines content))"

text \<open>A line that \<^verbatim>\<open>detectUrlsInTextFile\<close> counts: not a comment, first token an http(s) URL.\<close>

definition isHttpUrlLine :: "env \<Rightarrow> string \<Rightarrow> bool" where
  "isHttpUrlLine env line =
     (let trimmed = trim line
      in if startsWith trimmed ''#'' then False
         else (case split_ws trimmed of
                 [] \<Rightarrow> False
               | u # rest \<Rightarrow>
                   (case URL_parse env u of
                      None \<Rightarrow> False
                    | Some parsed \<Rightarrow> protocol parsed = ''http:'' \<or> protocol parsed = ''https:'')))"

definition detectUrlsInTextFile :: "env \<Rightarrow> world \<Rightarrow> string \<Rightarrow> bool" where
  "detectUrlsInTextFile env w filePath =
     (case fs w filePath of
        None \<Rightarrow> False
      | Some content \<Rightarrow>
          (let lines = nonBlankLines content
           in if lines = [] then False
              else (let urlCount = length (filter (isHttpUrlLine env) lines);
                        nonCommentLines = length (filter (\<lambda>l. \<not> startsWith (trim l) ''#'') lines)
                    in nonCommentLines > 0 \<and> urlCount = nonCommentLines)))"

text \<open>
  \<^verbatim>\<open>urlToFilename\<close>: the four \<^verbatim>\<open>replace\<close> calls on the path name, in order.
\<close>

definition stripLeadingSlash :: "string \<Rightarrow> string" where
  "stripLeadingSlash s = (case s of [] \<Rightarrow> [] | c # cs \<Rightarrow> if c = CHR ''/'' then cs else s)"

definition stripTrailingSlash :: "string \<Rightarrow> string" where
  "stripTrailingSlash s = (if s \<noteq> [] \<and> last s = CHR ''/'' then butlast s else s)"

definition isNameChar :: "char \<Rightarrow> bool" where
  "isNameChar c =
     (let n = (of_char c :: nat)
      in (97 \<le> n \<and> n \<le> 122) \<or> (65 \<le> n \<and> n \<le> 90) \<or> (48 \<le> n \<and> n \<le> 57) \<or>
         c = CHR ''_'' \<or> c = CHR ''-'')"

definition urlToFilename :: "env \<Rightarrow> world \<Rightarrow> string \<Rightarrow> string option \<Rightarrow> string" where
  "urlToFilename env w u customName =
     (if customName \<noteq> None \<and> customName \<noteq> Some []
      then (if endsWith (the customName) ''.html'' then the customName
            else the customName @ ''.html'')
      else (case URL_parse env u of
              None \<Rightarrow> ''page_'' @ show_nat (now w) @ ''.html''
            | Some parsed \<Rightarrow>
                (let name0 =
                       map (\<lambda>c. if isNameChar c then c else CHR ''_'')
                         (map (\<lambda>c. if c = CHR ''/'' then CHR ''_'' else c)
                            (stripTrailingSlash (stripLeadingSlash (pathname parsed))));
                     name1 =
                       (if name0 = [] \<or> name0 = ''_''
                        then map (\<lambda>c. if c = CHR ''.'' then CHR ''_'' else c) (hostname parsed)
                        else name0)
                 in name1 @ ''.html'')))"

section \<open>watcher.ts: jobs\<close>

definition createJobs :: "world \<Rightarrow> FileEntry list \<Rightarrow> ProcessingJob list" where
  "createJobs w entries =
     map (\<lambda>(e, index).
            \<lparr>job_id = ''job_'' @ show_nat (now w) @ ''_'' @ show_nat index,
             entry = e, status = Pending, job_retries = 0,
             job_error = None, startTime = None, endTime = None\<rparr>)
         (zip entries [0..<length entries])"

section \<open>main.ts: the processing cycle\<close>

text \<open>
  The module's mutable globals. \<^verbatim>\<open>config\<close> is assigned once at start-up and is a
  parameter here. The functions of a cycle only read \<open>isShuttingDown\<close>: the signal handler
  that sets it runs outside them.
\<close>

record globals =
  isShuttingDown :: bool
  state :: ProcessedState

text \<open>
  How an \<^verbatim>\<open>async\<close> function ends: it returns, or an exception leaves it (\<open>Threw\<close>);
  the globals and the world are what they were at that point.
\<close>

datatype outcome = Returned | Threw

text \<open>A directory entry of \<^verbatim>\<open>readdirSync(dir, { withFileTypes: true })\<close>.\<close>

record Dirent =
  dirent_name :: string
  dirent_isFile :: bool

text \<open>
  \<^verbatim>\<open>findUrlFiles\<close>, given the entries the directory listing returned (the empty list
  when the listing threw, which the function catches).
\<close>

definition findUrlFiles :: "env \<Rightarrow> Config \<Rightarrow> world \<Rightarrow> Dirent list \<Rightarrow> string list" where
  "findUrlFiles env config w items =
     map (\<lambda>item. path_join env (inputDir config) (dirent_name item))
       (filter (\<lambda>item. dirent_isFile item \<and> endsWith (dirent_name item) ''.txt'' \<and>
                    \<not> startsWith (dirent_name item) ''.'' \<and>
                    detectUrlsInTextFile env w (path_join env (inputDir config) (dirent_name item)))
          items)"

text \<open>The body of the loop over the URLs of one list (\<^verbatim>\<open>processUrlFile\<close>).\<close>

definition processUrlEntry ::
  "env \<Rightarrow> Config \<Rightarrow> UrlEntry \<Rightarrow> globals \<times> world \<Rightarrow> globals \<times> world" where
  "processUrlEntry env config urlEntry gw =
     (case gw of (g, w) \<Rightarrow>
        let fname = urlToFilename env w (entry_url urlEntry) (filename urlEntry);
            tempDir = path_join env (inputDir config) ''.url-cache'';
            tempPath = path_join env tempDir fname;
            urlHash = calculateStringHash env (entry_url urlEntry)
        in if isFileProcessed (state g) (entry_url urlEntry) urlHash then (g, w)
           else (case fetchUrl env (entry_url urlEntry) config w of
                   (result, w1) \<Rightarrow>
                     if \<not> success result then (g, w1)
                     else (let w2 = (if \<not> existsSync w1 tempDir then mkdirSync tempDir w1 else w1);
                               w3 = writeFileSync tempPath (html result) w2
                           in case generateOutputPath env tempPath (inputDir config)
                                     (outputDir config) config w3 of
                                (outPath, w4) \<Rightarrow>
                                  (case extractDocument env tempPath outPath config w4 of
                                     (Extracted content, w5) \<Rightarrow>
                                       (g\<lparr>state := markFileProcessed env w5 (state g)
                                                     (entry_url urlEntry) urlHash outPath 0\<rparr>, w5)
                                   | (ExtractFailed message, w5) \<Rightarrow> (g, w5)))))"

fun processUrlEntries ::
  "env \<Rightarrow> Config \<Rightarrow> UrlEntry list \<Rightarrow> globals \<times> world \<Rightarrow> globals \<times> world" where
  "processUrlEntries env config [] gw = gw"
| "processUrlEntries env config (urlEntry # rest) gw =
     (if isShuttingDown (fst gw) then gw
      else processUrlEntries env config rest (processUrlEntry env config urlEntry gw))"

definition processUrlFile ::
  "env \<Rightarrow> Config \<Rightarrow> string \<Rightarrow> globals \<times> world \<Rightarrow> outcome \<times> globals \<times> world" where
  "processUrlFile env config urlFilePath gw =
     (let urls = parseUrlFile env (snd gw) urlFilePath
      in if urls = [] then (Returned, gw)
         else (case processUrlEntries env config urls gw of
                 (g1, w1) \<Rightarrow>
                   (case calculateFileHash env w1 urlFilePath of
                      None \<Rightarrow> (Threw, g1, w1)
                    | Some urlFileHash \<Rightarrow>
                        (Returned,
                         g1\<lparr>state := markFileProcessed env w1 (state g1) urlFilePath urlFileHash
                                       ''url-list-processed'' 0\<rparr>,
                         w1))))"

fun processUrlFiles ::
  "env \<Rightarrow> Config \<Rightarrow> string list \<Rightarrow> globals \<times> world \<Rightarrow> outcome \<times> globals \<times> world" where
  "processUrlFiles env config [] gw = (Returned, gw)"
| "processUrlFiles env config (urlFile # rest) gw =
     (if isShuttingDown (fst gw) then (Returned, gw)
      else (case calculateFileHash env (snd gw) urlFile of
              None \<Rightarrow> (Threw, gw)
            | Some fileHash \<Rightarrow>
                if isFileProcessed (state (fst gw)) urlFile fileHash
                then processUrlFiles env config rest gw
                else (case processUrlFile env config urlFile gw of
                        (Threw, gw1) \<Rightarrow> (Threw, gw1)
                      | (Returned, gw1) \<Rightarrow> processUrlFiles env config rest gw1)))"

definition processUrls ::
  "env \<Rightarrow> Config \<Rightarrow> Dirent list \<Rightarrow> globals \<times> world \<Rightarrow> outcome \<times> globals \<times> world" where
  "processUrls env config items gw =
     (if \<not> fetchUrls config then (Returned, gw)
      else (let urlFiles = findUrlFiles env config (snd gw) items
            in if urlFiles = [] then (Returned, gw)
               else processUrlFiles env config urlFiles gw))"

text \<open>
  The first loop of \<^verbatim>\<open>processFiles\<close>, over the entries \<^verbatim>\<open>getAllInputFiles\<close> returned:
  the files to queue. \<open>None\<close> is the exception of a file that cannot be hashed.
\<close>

fun selectNewFiles ::
  "env \<Rightarrow> Config \<Rightarrow> ProcessedState \<Rightarrow> world \<Rightarrow> FileEntry list \<Rightarrow> FileEntry list option" where
  "selectNewFiles env config st w [] = Some []"
| "selectNewFiles env config st w (e # es) =
     (if endsWith (path e) ''.txt'' \<and> detectUrlsInTextFile env w (path e)
      then selectNewFiles env config st w es
      else (case calculateFileHash env w (path e) of
              None \<Rightarrow> None
            | Some fileHash \<Rightarrow>
                if skipExisting config \<and> isFileProcessed st (path e) fileHash
                then selectNewFiles env config st w es
                else map_option (Cons e) (selectNewFiles env config st w es)))"

text \<open>
  The callback \<^verbatim>\<open>processFiles\<close> maps over a batch. The first component says whether the
  callback rejected (its file could not be hashed); the second is the job object as the
  callback leaves it.
\<close>

definition runFileJob ::
  "env \<Rightarrow> Config \<Rightarrow> ProcessingJob \<Rightarrow> globals \<times> world \<Rightarrow> bool \<times> ProcessingJob \<times> globals \<times> world" where
  "runFileJob env config job gw =
     (case gw of (g, w) \<Rightarrow>
        (case calculateFileHash env w (path (entry job)) of
           None \<Rightarrow> (True, job, g, w)
         | Some fileHash \<Rightarrow>
             (case processJob env job config w of
                (result, w1) \<Rightarrow>
                  if status result = Completed
                  then (case generateOutputPath env (path (entry job)) (inputDir config)
                               (outputDir config) config w1 of
                          (outPath, w2) \<Rightarrow>
                            (False, result,
                             g\<lparr>state := markFileProcessed env w2 (state g) (path (entry job))
                                           fileHash outPath (job_retries result)\<rparr>,
                             w2))
                  else (False, result, g, w1))))"

text \<open>
  \<^verbatim>\<open>await Promise.all(batch.map(async (job) => ...))\<close>: every callback of the batch runs,
  one after the other in the model; the call rejects when one of them rejected.
\<close>

fun runFileBatch ::
  "env \<Rightarrow> Config \<Rightarrow> ProcessingJob list \<Rightarrow> globals \<times> world \<Rightarrow>
     bool \<times> ProcessingJob list \<times> globals \<times> world" where
  "runFileBatch env config [] gw = (False, [], gw)"
| "runFileBatch env config (job # rest) gw =
     (case runFileJob env config job gw of
        (rejected, job', gw1) \<Rightarrow>
          (case runFileBatch env config rest gw1 of
             (rejected', rest', gw2) \<Rightarrow> (rejected \<or> rejected', job' # rest', gw2)))"

text \<open>
  The batch loop of \<^verbatim>\<open>processFiles\<close>, from index \<open>i\<close> on:
  \<^verbatim>\<open>for (let i = 0; i < jobs.length; i += concurrency)\<close>. \<open>batches\<close> collects the batches
  run so far, each with its job objects as the batch left them. \<open>None\<close> is a loop that
  never ends.
\<close>

partial_function (option) fileBatchesFrom ::
  "env \<Rightarrow> Config \<Rightarrow> ProcessingJob list \<Rightarrow> int \<Rightarrow> ProcessingJob list list \<Rightarrow> globals \<times> world \<Rightarrow>
     (outcome \<times> ProcessingJob list list \<times> globals \<times> world) option" where
  "fileBatchesFrom env config jobs i batches gw =
     (if i < int (length jobs)
      then (if isShuttingDown (fst gw) then Some (Returned, batches, gw)
            else (case runFileBatch env config (slice jobs i (i + concurrentJobs config)) gw of
                    (rejected, batch', g1, w1) \<Rightarrow>
                      if rejected then Some (Threw, batches @ [batch'], g1, w1)
                      else (case saveProcessedState env
                                   (path_join env (outputDir config) (hashFile config))
                                   (state g1, w1) of
                              (st2, w2) \<Rightarrow>
                                fileBatchesFrom env config jobs (i + concurrentJobs config)
                                  (batches @ [batch']) (g1\<lparr>state := st2\<rparr>, w2))))
      else Some (Returned, batches, gw))"

definition processFiles ::
  "env \<Rightarrow> Config \<Rightarrow> FileEntry list \<Rightarrow> globals \<times> world \<Rightarrow>
     (outcome \<times> ProcessingJob list list \<times> globals \<times> world) option" where
  "processFiles env config entries gw =
     (case selectNewFiles env config (state (fst gw)) (snd gw) entries of
        None \<Rightarrow> Some (Threw, [], gw)
      | Some newFiles \<Rightarrow>
          if newFiles = [] then Some (Returned, [], gw)
          else fileBatchesFrom env config (createJobs (snd gw) newFiles) 0 [] gw)"

text \<open>
  \<^verbatim>\<open>runCycle\<close>: URLs first, then files; an exception of either is caught and ends the
  cycle. \<open>items\<close> is the listing of the input directory that \<^verbatim>\<open>findUrlFiles\<close> reads and
  \<open>entries\<close> what \<^verbatim>\<open>getAllInputFiles\<close> returns.
\<close>

definition runCycle ::
  "env \<Rightarrow> Config \<Rightarrow> Dirent list \<Rightarrow> FileEntry list \<Rightarrow> globals \<times> world \<Rightarrow> (globals \<times> world) option" where
  "runCycle env config items entries gw =
     (case processUrls env config items gw of
        (Threw, gw1) \<Rightarrow> Some gw1
      | (Returned, gw1) \<Rightarrow>
          (case processFiles env config entries gw1 of
             None \<Rightarrow> None
           | Some (oc, batches, gw2) \<Rightarrow> Some gw2))"

section \<open>Reading a trace\<close>

text \<open>
  The results of the gateway calls in a list of events, in order, and the events that
  change files (writes, copies and renames).
\<close>

fun spawn_results :: "event list \<Rightarrow> spawn_result list" where
  "spawn_results [] = []"
| "spawn_results (Spawn cmd r # evs) = r # spawn_results evs"
| "spawn_results (e # evs) = spawn_results evs"

fun file_effects :: "event list \<Rightarrow> event list" where
  "file_effects [] = []"
| "file_effects (WriteFile p c # evs) = WriteFile p c # file_effects evs"
| "file_effects (CopyFile p q # evs) = CopyFile p q # file_effects evs"
| "file_effects (Rename p q # evs) = Rename p q # file_effects evs"
| "file_effects (e # evs) = file_effects evs"

text \<open>The gateway fails: the command cannot be run, or it exits with a code other than 0.\<close>

definition gateway_fails :: "spawn_result \<Rightarrow> bool" where
  "gateway_fails r = (case r of SpawnError m \<Rightarrow> True | Exited c out err \<Rightarrow> c \<noteq> 0)"

text \<open>The error message \<^verbatim>\<open>extractDocument\<close> reports for a failed call.\<close>

definition failure_text :: "spawn_result \<Rightarrow> string" where
  "failure_text r =
     (case r of
        SpawnError m \<Rightarrow> m
      | Exited c out err \<Rightarrow> or_else err (''Exit code '' @ show_int c))"

text \<open>Where \<^verbatim>\<open>moveToError\<close> puts the copy of an input.\<close>

definition errorPathOf :: "env \<Rightarrow> Config \<Rightarrow> string \<Rightarrow> string" where
  "errorPathOf env config inputPath =
     path_join env (errorDir config) (path_relative env (inputDir config) inputPath)"

text \<open>The fetch layer an event belongs to (0 for an event of no layer).\<close>

fun layer_of :: "event \<Rightarrow> nat" where
  "layer_of (HttpGet u hs) = 1"
| "layer_of (LaunchBrowser u) = 2"
| "layer_of (HttpPost u hs b) = 3"
| "layer_of e = 0"

text \<open>
  The pattern the specification requires of a save of the ledger at path \<open>live\<close>: the
  content goes to another file, which is then renamed onto \<open>live\<close>; and what it forbids:
  a write to \<open>live\<close> itself.
\<close>

definition temp_then_rename :: "string \<Rightarrow> event list \<Rightarrow> bool" where
  "temp_then_rename live evs =
     (case evs of
        [WriteFile tmp c, Rename src dst] \<Rightarrow> tmp \<noteq> live \<and> src = tmp \<and> dst = live
      | _ \<Rightarrow> False)"

definition rewrites_in_place :: "string \<Rightarrow> event list \<Rightarrow> bool" where
  "rewrites_in_place live evs =
     list_ex (\<lambda>e. case e of WriteFile p c \<Rightarrow> p = live | _ \<Rightarrow> False) evs"

text \<open>
  The paths a list of events writes to; the inputs of the gateway calls in it that exited
  with code 0 (the command line is \<^verbatim>\<open>kreuzberg extract <input> ...\<close>); and whether a
  gateway call that exited with code 0 is followed at once by the write of its output to
  \<open>p\<close>, which is how \<^verbatim>\<open>extractDocument\<close> stores an extraction.
\<close>

fun written_paths :: "event list \<Rightarrow> string list" where
  "written_paths [] = []"
| "written_paths (WriteFile p c # evs) = p # written_paths evs"
| "written_paths (CopyFile p q # evs) = q # written_paths evs"
| "written_paths (Rename p q # evs) = p # q # written_paths evs"
| "written_paths (e # evs) = written_paths evs"

fun succeeded_inputs :: "event list \<Rightarrow> string list" where
  "succeeded_inputs [] = []"
| "succeeded_inputs (Spawn cmd (Exited c out err) # evs) =
     (if c = 0 then (case cmd of k # x # p # args \<Rightarrow> [p] | _ \<Rightarrow> []) else []) @
     succeeded_inputs evs"
| "succeeded_inputs (e # evs) = succeeded_inputs evs"

fun extracted_into :: "string \<Rightarrow> event list \<Rightarrow> bool" where
  "extracted_into p (e1 # e2 # evs) =
     ((case e1 of
         Spawn cmd (Exited c out err) \<Rightarrow> c = 0 \<and> e2 = WriteFile p out
       | _ \<Rightarrow> False) \<or>
      extracted_into p (e2 # evs))"
| "extracted_into p evs = False"

text \<open>
  \<open>run_evs w evs w'\<close>: the world \<open>w'\<close> comes from \<open>w\<close> by the events \<open>evs\<close>, and every
  file that no event of \<open>evs\<close> writes is as it was.
\<close>

definition run_evs :: "world \<Rightarrow> event list \<Rightarrow> world \<Rightarrow> bool" where
  "run_evs w evs w' =
     (trace w' = trace w @ evs \<and> (\<forall>p. p \<notin> set (written_paths evs) \<longrightarrow> fs w' p = fs w p))"

text \<open>
  The paths a cycle reads as inputs: those of the entries \<^verbatim>\<open>getAllInputFiles\<close> returns and
  those of the directory listing in which \<^verbatim>\<open>findUrlFiles\<close> looks for URL lists.
\<close>

definition input_paths :: "env \<Rightarrow> Config \<Rightarrow> Dirent list \<Rightarrow> FileEntry list \<Rightarrow> string set" where
  "input_paths env config items entries =
     set (map path entries @
          map (\<lambda>item. path_join env (inputDir config) (dirent_name item)) items)"

section \<open>The scheduler as the specification words it\<close>

text \<open>
  The specification's \<^verbatim>\<open>runBatches(jobs, concurrencyLimit)\<close>: the jobs are cut into
  consecutive batches of \<open>n\<close> jobs (the last one may be shorter); each batch is run to its
  end, and the ledger is saved once after it, before the next batch is looked at. A batch
  with a rejected callback ends the run without a save, as the exception does in
  \<^verbatim>\<open>processFiles\<close>.
\<close>

function chunks :: "nat \<Rightarrow> 'a list \<Rightarrow> 'a list list" where
  "chunks n xs = (if n = 0 \<or> xs = [] then [] else take n xs # chunks n (drop n xs))"
  by pat_completeness auto
termination
  by (relation "measure (\<lambda>(n, xs). length xs)") auto

fun runEachBatch ::
  "env \<Rightarrow> Config \<Rightarrow> ProcessingJob list list \<Rightarrow> globals \<times> world \<Rightarrow>
     outcome \<times> ProcessingJob list list \<times> globals \<times> world" where
  "runEachBatch env config [] gw = (Returned, [], gw)"
| "runEachBatch env config (batch # rest) gw =
     (case runFileBatch env config batch gw of
        (rejected, batch', g1, w1) \<Rightarrow>
          if rejected then (Threw, [batch'], g1, w1)
          else (case saveProcessedState env (path_join env (outputDir config) (hashFile config))
                       (state g1, w1) of
                  (st2, w2) \<Rightarrow>
                    (case runEachBatch env config rest (g1\<lparr>state := st2\<rparr>, w2) of
                       (oc, finished, gw') \<Rightarrow> (oc, batch' # finished, gw'))))"



definition terminal :: "ProcessingJob \<Rightarrow> bool" where
  "terminal job = (status job = Completed \<or> status job = Failed)"

section \<open>Concrete inputs\<close>

text \<open>
  An environment in which the gateway always exits with code 1, the direct fetch fails, the
  headless browser renders a page and the remote renderer is unreachable; paths are joined
  with a slash. The text of \<open>demo_ledger_text\<close> is \<^verbatim>\<open>{"version":"0.9.0"}\<close>.
\<close>

definition demo_ledger_text :: string where
  "demo_ledger_text =
     [CHR 0x7B, CHR 0x22] @ ''version'' @ [CHR 0x22, CHR 0x3A, CHR 0x22] @ ''0.9.0'' @
     [CHR 0x22, CHR 0x7D]"

definition last_part :: "string \<Rightarrow> string" where
  "last_part p = rev (takeWhile (\<lambda>c. c \<noteq> CHR ''/'') (rev p))"

definition demo_dirname :: "string \<Rightarrow> string" where
  "demo_dirname p =
     (let d = rev (drop 1 (dropWhile (\<lambda>c. c \<noteq> CHR ''/'') (rev p)))
      in if d = [] then ''.'' else d)"

definition demo_extname :: "string \<Rightarrow> string" where
  "demo_extname p =
     (if CHR ''.'' \<in> set (drop 1 (last_part p))
      then CHR ''.'' # rev (takeWhile (\<lambda>c. c \<noteq> CHR ''.'') (rev (last_part p)))
      else [])"

definition demo_basename :: "string \<Rightarrow> string \<Rightarrow> string" where
  "demo_basename p ext =
     (if ext \<noteq> [] \<and> endsWith (last_part p) ext \<and> last_part p \<noteq> ext
      then take (length (last_part p) - length ext) (last_part p)
      else last_part p)"

definition demo_env :: env where
  "demo_env =
     \<lparr>kreuzberg = (\<lambda>w cmd. Exited 1 [] ''boom''),
      forceOcr = False,
      http_get = (\<lambda>w u hs. NetError ''offline''),
      playwright_content = (\<lambda>w u. Inr ''<html>rendered</html>''),
      http_post = (\<lambda>w u hs b. NetError ''offline''),
      URL_parse = (\<lambda>s. if startsWith s ''https://'' \<and> 8 < length s
                        then Some \<lparr>protocol = ''https:'', hostname = drop 8 s, pathname = ''/''\<rparr>
                        else None),
      md5 = (\<lambda>s. s),
      toISOString = show_nat,
      JSON_parse = (\<lambda>s. if s = demo_ledger_text
                         then Some (JObj [(''version'', JStr ''0.9.0''), (''files'', JObj [])])
                         else None),
      JSON_stringify = (\<lambda>st. version st @ '' '' @ lastUpdated st),
      JSON_stringify_value = (\<lambda>v. []),
      path_join = (\<lambda>a b. a @ ''/'' @ b),
      path_relative = (\<lambda>a b. drop (length a + 1) b),
      path_dirname = demo_dirname,
      path_basename = demo_basename,
      path_extname = demo_extname\<rparr>"

text \<open>The same environment with a gateway that always succeeds.\<close>

definition demo_env_ok :: env where
  "demo_env_ok = demo_env\<lparr>kreuzberg := (\<lambda>w cmd. Exited 0 ''extracted text'' [])\<rparr>"

definition demo_config :: Config where
  "demo_config =
     \<lparr>watchInterval = 30, concurrentJobs = 2, addTimestamp = False, skipExisting = True,
      preserveStructure = True, hashFile = ''.processed.json'', fetchUrls = True,
      fetchTimeout = 30000, userAgent = ''KreuzbergBot'', playwrightEnabled = True,
      playwrightWait = 5000, playwrightTimeout = 60000, browserlessEnabled = True,
      browserlessUrl = ''http://browserless:3000'', browserlessToken = [],
      maxRetries = 3, retryDelay = 5000, kreuzbergConfig = ''/config/kreuzberg.toml'',
      ocrEnabled = True, qualityProcessing = True,
      inputDir = ''/in'', outputDir = ''/out'', errorDir = ''/err''\<rparr>"

definition demo_world :: world where
  "demo_world =
     \<lparr>fs = [''/in/a.pdf'' \<mapsto> ''def456'',
            ''/in/urls.txt'' \<mapsto> ''# comment\<newline>https://a.example x\<newline>not-a-url\<newline>'',
            ''/in/list.txt'' \<mapsto> ''https://a.example x\<newline>'',
            ''/out/.processed.json'' \<mapsto> demo_ledger_text],
      dirs = {''/in'', ''/out'', ''/err''},
      now = 1000,
      trace = []\<rparr>"

definition demo_entry :: FileEntry where
  "demo_entry = \<lparr>path = ''/in/a.pdf'', relativePath = ''a.pdf'', isDirectory = False, isUrl = False\<rparr>"

definition demo_job :: ProcessingJob where
  "demo_job =
     \<lparr>job_id = ''job_1000_0'', entry = demo_entry, status = Pending, job_retries = 0,
      job_error = None, startTime = None, endTime = None\<rparr>"


definition empty_state :: ProcessedState where
  "empty_state = \<lparr>version = STATE_VERSION, lastUpdated = ''0'', files = Map.empty\<rparr>"

definition demo_globals :: globals where
  "demo_globals = \<lparr>isShuttingDown = False, state = empty_state\<rparr>"

definition demo_items :: "Dirent list" where
  "demo_items = [\<lparr>dirent_name = ''list.txt'', dirent_isFile = True\<rparr>]"

definition demo_offline :: Config where
  "demo_offline = demo_config\<lparr>playwrightEnabled := False\<rparr>"

definition demo_list_entry :: FileEntry where
  "demo_list_entry =
     \<lparr>path = ''/in/list.txt'', relativePath = ''list.txt'', isDirectory = False, isUrl = False\<rparr>"

definition demo_tree :: "FileEntry list" where
  "demo_tree = [demo_entry, demo_list_entry]"

definition demo_once :: Config where
  "demo_once = demo_config\<lparr>maxRetries := 1\<rparr>"

text \<open>
  Runs on these inputs: a URL list whose only URL no layer can fetch; one new file with a
  gateway that succeeds; and the two halves of a cycle over the list and the file.
\<close>

definition demo_url_run :: "outcome \<times> globals \<times> world" where
  "demo_url_run = processUrlFile demo_env demo_offline ''/in/list.txt'' (demo_globals, demo_world)"

definition demo_file_run ::
  "(outcome \<times> ProcessingJob list list \<times> globals \<times> world) option" where
  "demo_file_run = processFiles demo_env_ok demo_config [demo_entry] (demo_globals, demo_world)"

definition demo_cycle_urls :: "outcome \<times> globals \<times> world" where
  "demo_cycle_urls = processUrls demo_env_ok demo_offline demo_items (demo_globals, demo_world)"

definition demo_cycle_files ::
  "(outcome \<times> ProcessingJob list list \<times> globals \<times> world) option" where
  "demo_cycle_files = processFiles demo_env_ok demo_offline demo_tree (snd demo_cycle_urls)"

section \<open>Basic facts\<close>

declare retryLoop.simps [simp del]
declare chunks.simps [simp del]
declare fileBatchesFrom.simps [code]

lemma spawn_results_append [simp]: "spawn_results (xs @ ys) = spawn_results xs @ spawn_results ys"
  by (induction xs rule: spawn_results.induct) auto

lemma file_effects_append [simp]: "file_effects (xs @ ys) = file_effects xs @ file_effects ys"
  by (induction xs rule: file_effects.induct) auto

lemma events_since_append [simp]: "trace w' = trace w @ evs \<Longrightarrow> events_since w w' = evs"
  by (simp add: events_since_def)

section \<open>The ledger test and the queue of new files (C2)\<close>





section \<open>Loading the ledger (C7)\<close>

text \<open>
  C7. \<open>loadProcessedState\<close> returns the fresh empty ledger (version 1.0.0, no files), as a
  value and not as an error, when the file is missing, when its content does not parse as
  JSON, and when the \<^verbatim>\<open>version\<close> of the parsed value is not the string 1.0.0.
\<close>

theorem loadProcessedState_fresh:
  assumes "\<not> existsSync w p \<or>
           (\<exists>c. fs w p = Some c \<and>
                (JSON_parse env c = None \<or>
                 (\<exists>v. JSON_parse env c = Some v \<and> json_version v \<noteq> Some (JStr STATE_VERSION))))"
  shows "loadProcessedState env w p =
           Ledger \<lparr>version = ''1.0.0'', lastUpdated = toISOString env (now w), files = Map.empty\<rparr>"
  using assms
  by (auto simp: loadProcessedState_def freshState_def readFileSync_def existsSync_def
        STATE_VERSION_def split: option.splits json.splits)

theorem loadProcessedState_fresh_witness:
  "fs demo_world ''/out/.processed.json'' = Some demo_ledger_text \<and>
   JSON_parse demo_env demo_ledger_text =
     Some (JObj [(''version'', JStr ''0.9.0''), (''files'', JObj [])]) \<and>
   loadProcessedState demo_env demo_world ''/out/.processed.json'' =
     Ledger \<lparr>version = ''1.0.0'', lastUpdated = ''1000'', files = Map.empty\<rparr> \<and>
   loadProcessedState demo_env demo_world ''/out/missing.json'' =
     Ledger \<lparr>version = ''1.0.0'', lastUpdated = ''1000'', files = Map.empty\<rparr> \<and>
   loadProcessedState demo_env demo_world ''/in/a.pdf'' =
     Ledger \<lparr>version = ''1.0.0'', lastUpdated = ''1000'', files = Map.empty\<rparr>"
proof -
  have t: "toISOString demo_env (now demo_world) = ''1000''"
    by (simp add: demo_env_def demo_world_def) code_simp
  have f: "fs demo_world ''/out/.processed.json'' = Some demo_ledger_text"
    by (simp add: demo_world_def)
  have j: "JSON_parse demo_env demo_ledger_text =
     Some (JObj [(''version'', JStr ''0.9.0''), (''files'', JObj [])])"
    by (simp add: demo_env_def)
  have v: "json_version (JObj [(''version'', JStr ''0.9.0''), (''files'', JObj [])])
             \<noteq> Some (JStr STATE_VERSION)"
    by (simp add: STATE_VERSION_def)
  have a: "\<not> existsSync demo_world ''/out/missing.json''"
    by (simp add: existsSync_def demo_world_def)
  have b: "fs demo_world ''/in/a.pdf'' = Some ''def456'' \<and> JSON_parse demo_env ''def456'' = None"
    by (simp add: demo_world_def demo_env_def demo_ledger_text_def)
  show ?thesis
    using loadProcessedState_fresh [of demo_world "''/out/.processed.json''" demo_env]
      loadProcessedState_fresh [of demo_world "''/out/missing.json''" demo_env]
      loadProcessedState_fresh [of demo_world "''/in/a.pdf''" demo_env]
      t f j v a b
    by auto
qed

section \<open>Saving the ledger (C3)\<close>

text \<open>
  C3, as the code has it. A save sets \<^verbatim>\<open>lastUpdated\<close> to the current time, leaves the
  version and the entries as they are, and writes the whole serialised ledger with one
  \<^verbatim>\<open>writeFileSync\<close> to the ledger's own path: the live file is rewritten in place, and no
  temporary file and no rename are involved.
\<close>

theorem saveProcessedState_writes_live_file:
  "lastUpdated (fst (saveProcessedState env p (st, w))) = toISOString env (now w) \<and>
   version (fst (saveProcessedState env p (st, w))) = version st \<and>
   files (fst (saveProcessedState env p (st, w))) = files st \<and>
   events_since w (snd (saveProcessedState env p (st, w))) =
     [WriteFile p (JSON_stringify env (fst (saveProcessedState env p (st, w))))] \<and>
   fs (snd (saveProcessedState env p (st, w))) p =
     Some (JSON_stringify env (fst (saveProcessedState env p (st, w)))) \<and>
   rewrites_in_place p (events_since w (snd (saveProcessedState env p (st, w)))) \<and>
   \<not> temp_then_rename p (events_since w (snd (saveProcessedState env p (st, w))))"
  by (simp add: saveProcessedState_def writeFileSync_def Let_def events_since_def emit_def
        rewrites_in_place_def temp_then_rename_def)

text \<open>
  C3 as stated fails: saving the empty ledger to \<^verbatim>\<open>/out/.processed.json\<close> is the single
  event of a write to that very path.
\<close>

theorem saveProcessedState_counterexample:
  "events_since demo_world
     (snd (saveProcessedState demo_env ''/out/.processed.json'' (empty_state, demo_world))) =
     [WriteFile ''/out/.processed.json'' ''1.0.0 1000''] \<and>
   rewrites_in_place ''/out/.processed.json''
     (events_since demo_world
        (snd (saveProcessedState demo_env ''/out/.processed.json'' (empty_state, demo_world)))) \<and>
   \<not> temp_then_rename ''/out/.processed.json''
     (events_since demo_world
        (snd (saveProcessedState demo_env ''/out/.processed.json'' (empty_state, demo_world))))"
proof -
  have t: "show_nat 1000 = ''1000''"
    by code_simp
  show ?thesis
    by (simp add: saveProcessedState_def writeFileSync_def Let_def events_since_def emit_def
          rewrites_in_place_def temp_then_rename_def demo_env_def demo_world_def
          empty_state_def STATE_VERSION_def t del: show_nat.simps)
qed

section \<open>The order of the fetch layers (C5)\<close>

lemma fetchWithNative_trace:
  "fetchWithNative env u config w = (r, w') \<Longrightarrow>
     trace w' = trace w @ [HttpGet u (nativeHeaders config)]"
  by (auto simp: fetchWithNative_def Let_def emit_def split: http_result.splits if_splits)

lemma fetchWithPlaywright_trace:
  "fetchWithPlaywright env u config w = (r, w') \<Longrightarrow>
     trace w' = trace w @ (if playwrightEnabled config then [LaunchBrowser u] else [])"
  by (auto simp: fetchWithPlaywright_def Let_def emit_def split: sum.splits if_splits)

lemma fetchWithPlaywright_success:
  "fetchWithPlaywright env u config w = (r, w') \<Longrightarrow> success r \<Longrightarrow> playwrightEnabled config"
  by (auto simp: fetchWithPlaywright_def Let_def fetchFailed_def split: sum.splits if_splits)

lemma fetchWithBrowserless_trace:
  "fetchWithBrowserless env u config w = (r, w') \<Longrightarrow>
     \<exists>evs. trace w' = trace w @ evs \<and>
           map layer_of evs = (if browserlessEnabled config then [3] else [])"
  by (auto simp: fetchWithBrowserless_def Let_def emit_def split: http_result.splits if_splits)

lemma fetchWithBrowserless_success:
  "fetchWithBrowserless env u config w = (r, w') \<Longrightarrow> success r \<Longrightarrow> browserlessEnabled config"
  by (auto simp: fetchWithBrowserless_def Let_def fetchFailed_def
        split: http_result.splits if_splits)

text \<open>
  C5. With \<open>r1\<close>, \<open>r2\<close>, \<open>r3\<close> what the three layers answer, each called in the world the
  layer before it left: \<open>fetchUrl\<close> returns the answer of the first layer that succeeds, and
  the requests it has issued by then are those of the layers up to that one, in the order
  1, 2, 3. When layer 1 fails and layer 2 succeeds the result is that of layer 2 and the
  trace holds a request of layer 1 and one of layer 2 only. (A layer switched off in the
  configuration answers with a failure without issuing a request.)
\<close>

theorem fetchUrl_first_successful_layer:
  assumes l1: "fetchWithNative env u config w = (r1, w1)"
      and l2: "fetchWithPlaywright env u config w1 = (r2, w2)"
      and l3: "fetchWithBrowserless env u config w2 = (r3, w3)"
  shows "(success r1 \<longrightarrow>
            fetchUrl env u config w = (r1, w1) \<and> map layer_of (events_since w w1) = [1]) \<and>
         (\<not> success r1 \<and> success r2 \<longrightarrow>
            fetchUrl env u config w = (r2, w2) \<and> map layer_of (events_since w w2) = [1, 2]) \<and>
         (\<not> success r1 \<and> \<not> success r2 \<and> success r3 \<longrightarrow>
            fetchUrl env u config w = (r3, w3) \<and>
            map layer_of (events_since w w3) =
              [1] @ (if playwrightEnabled config then [2] else []) @ [3]) \<and>
         (\<not> success r1 \<and> \<not> success r2 \<and> \<not> success r3 \<longrightarrow>
            fetchUrl env u config w = (fetchFailed u Browserless ''All fetch methods failed'', w3) \<and>
            map layer_of (events_since w w3) =
              [1] @ (if playwrightEnabled config then [2] else []) @
                    (if browserlessEnabled config then [3] else []))"
proof -
  have t1: "trace w1 = trace w @ [HttpGet u (nativeHeaders config)]"
    using fetchWithNative_trace [OF l1] .
  have t2: "trace w2 = trace w1 @ (if playwrightEnabled config then [LaunchBrowser u] else [])"
    using fetchWithPlaywright_trace [OF l2] .
  obtain evs where t3: "trace w3 = trace w2 @ evs"
      and e3: "map layer_of evs = (if browserlessEnabled config then [3] else [])"
    using fetchWithBrowserless_trace [OF l3] by blast
  have s2: "success r2 \<Longrightarrow> playwrightEnabled config"
    using fetchWithPlaywright_success [OF l2] .
  have s3: "success r3 \<Longrightarrow> browserlessEnabled config"
    using fetchWithBrowserless_success [OF l3] .
  show ?thesis
    using l1 l2 l3 t1 t2 t3 e3 s2 s3
    by (auto simp: fetchUrl_def events_since_def)
qed

theorem fetchUrl_first_successful_layer_witness:
  "\<not> success (fst (fetchWithNative demo_env ''https://a.example'' demo_config demo_world)) \<and>
   success (fst (fetchWithPlaywright demo_env ''https://a.example'' demo_config
     (snd (fetchWithNative demo_env ''https://a.example'' demo_config demo_world)))) \<and>
   via (fst (fetchUrl demo_env ''https://a.example'' demo_config demo_world)) = Playwright \<and>
   html (fst (fetchUrl demo_env ''https://a.example'' demo_config demo_world)) =
     ''<html>rendered</html>'' \<and>
   map layer_of (events_since demo_world
     (snd (fetchUrl demo_env ''https://a.example'' demo_config demo_world))) = [1, 2]"
proof -
  define r1 where "r1 = fst (fetchWithNative demo_env ''https://a.example'' demo_config demo_world)"
  define w1 where "w1 = snd (fetchWithNative demo_env ''https://a.example'' demo_config demo_world)"
  define r2 where "r2 = fst (fetchWithPlaywright demo_env ''https://a.example'' demo_config w1)"
  define w2 where "w2 = snd (fetchWithPlaywright demo_env ''https://a.example'' demo_config w1)"
  define r3 where "r3 = fst (fetchWithBrowserless demo_env ''https://a.example'' demo_config w2)"
  define w3 where "w3 = snd (fetchWithBrowserless demo_env ''https://a.example'' demo_config w2)"
  have f1: "\<not> success r1"
    by (simp add: r1_def fetchWithNative_def demo_env_def fetchFailed_def)
  have f2: "success r2 \<and> via r2 = Playwright \<and> html r2 = ''<html>rendered</html>''"
    by (simp add: r2_def fetchWithPlaywright_def demo_env_def demo_config_def fetchOk_def)
  from fetchUrl_first_successful_layer [of demo_env "''https://a.example''" demo_config
      demo_world r1 w1 r2 w2 r3 w3] f1 f2
  show ?thesis
    by (simp add: r1_def w1_def r2_def w2_def r3_def w3_def)
qed

section \<open>Parsing a URL list (C9)\<close>

lemma nonBlankLines_scenario:
  "nonBlankLines ''# comment\<newline>https://a.example x\<newline>not-a-url\<newline>'' =
     [''# comment'', ''https://a.example x'', ''not-a-url'']"
  by (simp add: nonBlankLines_def trim_def isWhiteSpace_def)

lemma split_ws_url_and_name: "split_ws ''https://a.example x'' = [''https://a.example'', ''x'']"
  by (simp add: isWhiteSpace_def)

lemma split_ws_single_token: "split_ws ''not-a-url'' = [''not-a-url'']"
  by (simp add: isWhiteSpace_def)

text \<open>
  C9. Given that \<^verbatim>\<open>new URL\<close> accepts \<^verbatim>\<open>https://a.example\<close> and rejects
  \<^verbatim>\<open>not-a-url\<close>, parsing a file with the content of the scenario yields exactly the entry
  with that URL and the file name \<^verbatim>\<open>x\<close>: the comment line and the line whose first token
  is no URL are dropped, and the function returns a list in every case.
\<close>

theorem parseUrlFile_scenario:
  assumes "URL_parse env ''https://a.example'' \<noteq> None"
      and "URL_parse env ''not-a-url'' = None"
      and "fs w p = Some ''# comment\<newline>https://a.example x\<newline>not-a-url\<newline>''"
  shows "parseUrlFile env w p = [\<lparr>entry_url = ''https://a.example'', filename = Some ''x''\<rparr>]"
  using assms
  by (auto simp: parseUrlFile_def nonBlankLines_scenario List.map_filter_def parseUrlLine_def
        trim_def isWhiteSpace_def startsWith_def split_ws_url_and_name split_ws_single_token)

theorem parseUrlFile_scenario_witness:
  "URL_parse demo_env ''https://a.example'' \<noteq> None \<and>
   URL_parse demo_env ''not-a-url'' = None \<and>
   fs demo_world ''/in/urls.txt'' =
     Some ''# comment\<newline>https://a.example x\<newline>not-a-url\<newline>'' \<and>
   parseUrlFile demo_env demo_world ''/in/urls.txt'' =
     [\<lparr>entry_url = ''https://a.example'', filename = Some ''x''\<rparr>]"
proof -
  have a: "URL_parse demo_env ''https://a.example'' \<noteq> None"
    by (simp add: demo_env_def startsWith_def)
  have b: "URL_parse demo_env ''not-a-url'' = None"
    by (simp add: demo_env_def startsWith_def)
  have c: "fs demo_world ''/in/urls.txt'' =
     Some ''# comment\<newline>https://a.example x\<newline>not-a-url\<newline>''"
    by (simp add: demo_world_def)
  from parseUrlFile_scenario [OF a b c] a b c show ?thesis
    by simp
qed

section \<open>Retries and quarantine (C4, C10)\<close>

lemma extractDocument_fails:
  assumes "gateway_fails (kreuzberg env w (''kreuzberg'' # extractArgs env config w p))"
  shows "extractDocument env p out config w =
           (ExtractFailed (failure_text (kreuzberg env w (''kreuzberg'' # extractArgs env config w p))),
            emit (Spawn (''kreuzberg'' # extractArgs env config w p)
                    (kreuzberg env w (''kreuzberg'' # extractArgs env config w p))) w)"
  using assms
  by (auto simp: extractDocument_def Let_def gateway_fails_def failure_text_def
        split: spawn_result.splits)

text \<open>
  With a gateway that fails whenever it is called, the loop started at \<open>a\<close> runs out after
  one call for each of the attempts \<open>a\<close> to \<open>maxRetries\<close>, touches no file, and leaves the
  message of the last call in \<^verbatim>\<open>lastError\<close>.
\<close>

lemma retryLoop_fails:
  assumes always: "\<forall>w cmd. gateway_fails (kreuzberg env w cmd)"
  shows "\<exists>job' le' w' evs.
           retryLoop env config out a job le w = Inr (job', le', w') \<and>
           fs w' = fs w \<and> dirs w' = dirs w \<and> trace w' = trace w @ evs \<and>
           file_effects evs = [] \<and>
           length (spawn_results evs) = nat (maxRetries config + 1 - a) \<and>
           entry job' = entry job \<and> job_id job' = job_id job \<and>
           (if a \<le> maxRetries config
            then le' = or_else (failure_text (last (spawn_results evs))) ''Unknown error'' \<and>
                 job_retries job' = maxRetries config
            else le' = le \<and> job' = job)"
  using always
proof (induction env config out a job le w rule: retryLoop.induct)
  case (1 env config out a job le w)
  show ?case
  proof (cases "a \<le> maxRetries config")
    case False
    then show ?thesis
      by (simp add: retryLoop.simps)
  next
    case True
    define cmd where "cmd = ''kreuzberg'' # extractArgs env config w (path (entry job))"
    define r where "r = kreuzberg env w cmd"
    define w1 where "w1 = emit (Spawn cmd r) w"
    define w2 where "w2 = (if a < maxRetries config then sleep (retryDelay config) w1 else w1)"
    have gf: "gateway_fails r"
      using "1.prems" by (simp add: r_def)
    have ex: "extractDocument env (path (entry job)) out config w = (ExtractFailed (failure_text r), w1)"
      using extractDocument_fails [of env w config "path (entry job)" out] gf
      by (simp add: r_def cmd_def w1_def)
    from "1.IH" [OF True ex [symmetric] refl "1.prems"]
    obtain job' le' w' evs where
      rl: "retryLoop env config out (a + 1) (job\<lparr>job_retries := a\<rparr>)
             (or_else (failure_text r) ''Unknown error'') w2 = Inr (job', le', w')"
      and fr: "fs w' = fs w2" "dirs w' = dirs w2" "trace w' = trace w2 @ evs"
      and fe: "file_effects evs = []"
      and ln: "length (spawn_results evs) = nat (maxRetries config + 1 - (a + 1))"
      and ids: "entry job' = entry (job\<lparr>job_retries := a\<rparr>)"
               "job_id job' = job_id (job\<lparr>job_retries := a\<rparr>)"
      and rest: "(if a + 1 \<le> maxRetries config
            then le' = or_else (failure_text (last (spawn_results evs))) ''Unknown error'' \<and>
                 job_retries job' = maxRetries config
            else le' = or_else (failure_text r) ''Unknown error'' \<and> job' = job\<lparr>job_retries := a\<rparr>)"
      unfolding w2_def by blast
    define evs0 where
      "evs0 = Spawn cmd r # (if a < maxRetries config then [Sleep (retryDelay config)] else [])"
    have w2f: "fs w2 = fs w" "dirs w2 = dirs w" "trace w2 = trace w @ evs0"
      by (auto simp: w2_def w1_def emit_def sleep_def evs0_def)
    have eq: "retryLoop env config out a job le w = Inr (job', le', w')"
      using True ex rl by (subst retryLoop.simps) (simp add: w2_def)
    have sp0: "spawn_results evs0 = [r]" "file_effects evs0 = []"
      by (auto simp: evs0_def)
    have last_eq: "a + 1 \<le> maxRetries config \<Longrightarrow>
        last (spawn_results (evs0 @ evs)) = last (spawn_results evs)"
      using ln by (cases "spawn_results evs") (auto simp: sp0)
    have last_eq2: "\<not> a + 1 \<le> maxRetries config \<Longrightarrow> last (spawn_results (evs0 @ evs)) = r"
      using ln by (auto simp: sp0)
    show ?thesis
      apply (rule exI [of _ job'], rule exI [of _ le'], rule exI [of _ w'],
             rule exI [of _ "evs0 @ evs"])
      using eq fr w2f fe ln ids rest True last_eq last_eq2 sp0
      by (auto split: if_splits)
  qed
qed

lemma generateOutputPath_frame:
  assumes "generateOutputPath env p inDir outDir config w = (out, w1)"
  shows "fs w1 = fs w \<and> now w1 = now w \<and>
         (\<exists>evs. trace w1 = trace w @ evs \<and> file_effects evs = [] \<and> spawn_results evs = [])"
  using assms
  by (auto simp: generateOutputPath_def Let_def mkdirSync_def emit_def split: if_splits)

lemma moveToError_copies:
  assumes "fs w p = Some c"
  shows "\<exists>evs. trace (moveToError env p (inputDir config) (errorDir config) err w) = trace w @ evs \<and>
           spawn_results evs = [] \<and>
           file_effects evs =
             [CopyFile p (errorPathOf env config p),
              WriteFile (errorPathOf env config p @ ''.error.txt'')
                (''Error: '' @ err @ ''\<newline>Timestamp: '' @ toISOString env (now w) @
                 ''\<newline>Original path: '' @ p)] \<and>
           now (moveToError env p (inputDir config) (errorDir config) err w) = now w \<and>
           fs (moveToError env p (inputDir config) (errorDir config) err w) p \<noteq> None \<and>
           (errorPathOf env config p @ ''.error.txt'' \<noteq> p \<longrightarrow>
              fs (moveToError env p (inputDir config) (errorDir config) err w) p = Some c)"
  using assms
  by (auto simp: moveToError_def Let_def errorPathOf_def copyFileSync_def writeFileSync_def
        mkdirSync_def emit_def errorLogText_def)

text \<open>What \<open>processJob\<close> does once its loop has run out without touching a file.\<close>

lemma processJob_exhausted:
  assumes gen: "generateOutputPath env (path (entry job)) (inputDir config) (outputDir config)
                  config w = (out, w1)"
      and loop: "retryLoop env config out 1
                   (job\<lparr>status := Processing, startTime := Some (now w)\<rparr>) [] w1
                  = Inr (job2, le, w2)"
      and fr: "fs w2 = fs w1" "trace w2 = trace w1 @ evs" "file_effects evs = []"
      and ent: "entry job2 = entry job"
      and inp: "fs w (path (entry job)) = Some c"
  shows "\<exists>job' w' evs'. processJob env job config w = (job', w') \<and>
           events_since w w' = evs' \<and>
           spawn_results evs' = spawn_results evs \<and>
           status job' = Failed \<and> job_error job' = Some le \<and>
           job_retries job' = job_retries job2 \<and> entry job' = entry job \<and>
           file_effects evs' =
             [CopyFile (path (entry job)) (errorPathOf env config (path (entry job))),
              WriteFile (errorPathOf env config (path (entry job)) @ ''.error.txt'')
                (''Error: '' @ le @ ''\<newline>Timestamp: '' @ toISOString env (now w') @
                 ''\<newline>Original path: '' @ path (entry job))] \<and>
           fs w' (path (entry job)) \<noteq> None \<and>
           (errorPathOf env config (path (entry job)) @ ''.error.txt'' \<noteq> path (entry job) \<longrightarrow>
              fs w' (path (entry job)) = Some c)"
proof -
  from generateOutputPath_frame [OF gen] obtain evs1 where
    g1: "fs w1 = fs w" "trace w1 = trace w @ evs1" "file_effects evs1 = []"
        "spawn_results evs1 = []"
    by blast
  have inp2: "fs w2 (path (entry job)) = Some c"
    using inp fr g1 by simp
  define w3 where
    "w3 = moveToError env (path (entry job)) (inputDir config) (errorDir config) le w2"
  from moveToError_copies [OF inp2, of env config le] obtain evs3 where
    m: "trace w3 = trace w2 @ evs3"
       "spawn_results evs3 = []"
       "file_effects evs3 =
             [CopyFile (path (entry job)) (errorPathOf env config (path (entry job))),
              WriteFile (errorPathOf env config (path (entry job)) @ ''.error.txt'')
                (''Error: '' @ le @ ''\<newline>Timestamp: '' @ toISOString env (now w2) @
                 ''\<newline>Original path: '' @ path (entry job))]"
       "now w3 = now w2"
       "fs w3 (path (entry job)) \<noteq> None"
       "errorPathOf env config (path (entry job)) @ ''.error.txt'' \<noteq> path (entry job) \<longrightarrow>
          fs w3 (path (entry job)) = Some c"
    unfolding w3_def by blast
  have pj: "processJob env job config w =
          (job2\<lparr>status := Failed, job_error := Some le, endTime := Some (now w2)\<rparr>, w3)"
    using gen loop ent by (simp add: processJob_def Let_def w3_def)
  have tr: "trace w3 = trace w @ (evs1 @ evs @ evs3)"
    using m(1) fr(2) g1(2) by simp
  show ?thesis
    using pj tr m g1 fr ent by (simp add: events_since_def)
qed

text \<open>
  C4. With \<^verbatim>\<open>maxRetries\<close> 3, a gateway that fails whenever it is called, and an input
  that exists: the job's run calls the gateway exactly three times; the job ends failed and
  carries the message of the third call (\<^verbatim>\<open>Unknown error\<close> should that message be
  empty); the files the run touches are exactly one copy of the input to the error tree,
  at the input's path relative to the input directory, and one log beside the copy, whose
  text holds the error, a time stamp and the original path. Nothing is renamed or removed:
  the input is still there.
\<close>

theorem processJob_three_failing_attempts:
  assumes "maxRetries config = 3"
      and "\<forall>w cmd. gateway_fails (kreuzberg env w cmd)"
      and "fs w (path (entry job)) = Some content"
      and "processJob env job config w = (job', w')"
  shows "length (spawn_results (events_since w w')) = 3 \<and>
         status job' = Failed \<and>
         job_error job' =
           Some (or_else (failure_text (last (spawn_results (events_since w w')))) ''Unknown error'') \<and>
         job_retries job' = 3 \<and>
         file_effects (events_since w w') =
           [CopyFile (path (entry job))
              (path_join env (errorDir config) (path_relative env (inputDir config) (path (entry job)))),
            WriteFile
              (path_join env (errorDir config) (path_relative env (inputDir config) (path (entry job)))
                 @ ''.error.txt'')
              (''Error: '' @
                 or_else (failure_text (last (spawn_results (events_since w w')))) ''Unknown error'' @
               ''\<newline>Timestamp: '' @ toISOString env (now w') @
               ''\<newline>Original path: '' @ path (entry job))] \<and>
         fs w' (path (entry job)) \<noteq> None"
proof -
  obtain out w1 where gen:
    "generateOutputPath env (path (entry job)) (inputDir config) (outputDir config) config w
       = (out, w1)"
    by (cases "generateOutputPath env (path (entry job)) (inputDir config) (outputDir config)
                 config w")
  from retryLoop_fails [OF assms(2), of config out 1
      "job\<lparr>status := Processing, startTime := Some (now w)\<rparr>" "[]" w1]
  obtain job2 le w2 evs where
    loop: "retryLoop env config out 1 (job\<lparr>status := Processing, startTime := Some (now w)\<rparr>) [] w1
                  = Inr (job2, le, w2)"
    and fr: "fs w2 = fs w1" "trace w2 = trace w1 @ evs" "file_effects evs = []"
    and ln: "length (spawn_results evs) = 3"
    and ent: "entry job2 = entry job"
    and rest: "le = or_else (failure_text (last (spawn_results evs))) ''Unknown error''"
              "job_retries job2 = 3"
    using assms(1) by (auto split: if_splits)
  from processJob_exhausted [OF gen loop fr ent assms(3)] ln rest assms(4)
  show ?thesis by (auto simp: errorPathOf_def)
qed

theorem processJob_three_failing_attempts_witness:
  "maxRetries demo_config = 3 \<and>
   (\<forall>w cmd. gateway_fails (kreuzberg demo_env w cmd)) \<and>
   fs demo_world (path (entry demo_job)) = Some ''def456'' \<and>
   length (spawn_results (events_since demo_world
     (snd (processJob demo_env demo_job demo_config demo_world)))) = 3 \<and>
   status (fst (processJob demo_env demo_job demo_config demo_world)) = Failed"
proof -
  have a: "maxRetries demo_config = 3"
    by (simp add: demo_config_def)
  have b: "\<forall>w cmd. gateway_fails (kreuzberg demo_env w cmd)"
    by (simp add: demo_env_def gateway_fails_def)
  have c: "fs demo_world (path (entry demo_job)) = Some ''def456''"
    by (simp add: demo_world_def demo_job_def demo_entry_def)
  from processJob_three_failing_attempts [OF a b c, of "fst (processJob demo_env demo_job demo_config demo_world)"
       "snd (processJob demo_env demo_job demo_config demo_world)"] a b c
  show ?thesis by simp
qed

text \<open>
  C10. \<open>validateConfig\<close> does not object to \<^verbatim>\<open>maxRetries\<close> 0 (it returns no error at all
  when the watch interval and the concurrency are at least 1). With that value the loop of
  \<open>processJob\<close> is not entered: the gateway is never called, the job ends failed with the
  empty string as its error, and the input is still copied to the error tree with a log
  beside it.
\<close>

theorem processJob_zero_retries:
  assumes "maxRetries config = 0"
      and "fs w (path (entry job)) = Some content"
      and "processJob env job config w = (job', w')"
  shows "''MAX_RETRIES cannot be negative'' \<notin> set (validateConfig config) \<and>
         (1 \<le> watchInterval config \<and> 1 \<le> concurrentJobs config \<longrightarrow> validateConfig config = []) \<and>
         spawn_results (events_since w w') = [] \<and>
         status job' = Failed \<and> job_error job' = Some [] \<and>
         file_effects (events_since w w') =
           [CopyFile (path (entry job))
              (path_join env (errorDir config) (path_relative env (inputDir config) (path (entry job)))),
            WriteFile
              (path_join env (errorDir config) (path_relative env (inputDir config) (path (entry job)))
                 @ ''.error.txt'')
              (''Error: '' @ ''\<newline>Timestamp: '' @ toISOString env (now w') @
               ''\<newline>Original path: '' @ path (entry job))]"
proof -
  obtain out w1 where gen:
    "generateOutputPath env (path (entry job)) (inputDir config) (outputDir config) config w
       = (out, w1)"
    by (cases "generateOutputPath env (path (entry job)) (inputDir config) (outputDir config)
                 config w")
  have loop: "retryLoop env config out 1 (job\<lparr>status := Processing, startTime := Some (now w)\<rparr>) [] w1
                  = Inr (job\<lparr>status := Processing, startTime := Some (now w)\<rparr>, [], w1)"
    using assms(1) by (subst retryLoop.simps) simp
  have v: "''MAX_RETRIES cannot be negative'' \<notin> set (validateConfig config) \<and>
         (1 \<le> watchInterval config \<and> 1 \<le> concurrentJobs config \<longrightarrow> validateConfig config = [])"
    using assms(1) by (simp add: validateConfig_def)
  from processJob_exhausted [OF gen loop, of "[]" content] assms(2) assms(3) v
  show ?thesis by (auto simp: errorPathOf_def)
qed

theorem processJob_zero_retries_witness:
  "maxRetries (demo_config\<lparr>maxRetries := 0\<rparr>) = 0 \<and>
   fs demo_world (path (entry demo_job)) = Some ''def456'' \<and>
   validateConfig (demo_config\<lparr>maxRetries := 0\<rparr>) = [] \<and>
   spawn_results (events_since demo_world
     (snd (processJob demo_env_ok demo_job (demo_config\<lparr>maxRetries := 0\<rparr>) demo_world))) = [] \<and>
   status (fst (processJob demo_env_ok demo_job (demo_config\<lparr>maxRetries := 0\<rparr>) demo_world)) = Failed \<and>
   job_error (fst (processJob demo_env_ok demo_job (demo_config\<lparr>maxRetries := 0\<rparr>) demo_world)) = Some []"
proof -
  have a: "maxRetries (demo_config\<lparr>maxRetries := 0\<rparr>) = 0"
    by simp
  have c: "fs demo_world (path (entry demo_job)) = Some ''def456''"
    by (simp add: demo_world_def demo_job_def demo_entry_def)
  have d: "1 \<le> watchInterval (demo_config\<lparr>maxRetries := 0\<rparr>) \<and>
           1 \<le> concurrentJobs (demo_config\<lparr>maxRetries := 0\<rparr>)"
    by (simp add: demo_config_def)
  from processJob_zero_retries [OF a c,
      of demo_env_ok "fst (processJob demo_env_ok demo_job (demo_config\<lparr>maxRetries := 0\<rparr>) demo_world)"
         "snd (processJob demo_env_ok demo_job (demo_config\<lparr>maxRetries := 0\<rparr>) demo_world)"] a c d
  show ?thesis by simp
qed

section \<open>Batches (C6)\<close>

lemma concat_chunks: "0 < n \<Longrightarrow> concat (chunks n xs) = xs"
proof (induction n xs rule: chunks.induct)
  case (1 n xs)
  then show ?case
    by (subst chunks.simps) auto
qed



lemma slice_take_drop:
  "0 \<le> i \<Longrightarrow> 0 \<le> c \<Longrightarrow> slice xs i (i + c) = take (nat c) (drop (nat i) xs)"
  by (auto simp: slice_def Let_def min_def)

lemma retryLoop_result:
  "(retryLoop env config out a job le w = Inl (job', w') \<longrightarrow>
      status job' = Completed \<and> entry job' = entry job \<and> job_id job' = job_id job) \<and>
   (retryLoop env config out a job le w = Inr (job', le', w') \<longrightarrow>
      entry job' = entry job \<and> job_id job' = job_id job)"
proof (induction env config out a job le w rule: retryLoop.induct)
  case (1 env config out a job le w)
  show ?case
  proof (cases "a \<le> maxRetries config")
    case False
    then show ?thesis
      by (simp add: retryLoop.simps)
  next
    case True
    obtain res w1 where ex: "extractDocument env (path (entry job)) out config w = (res, w1)"
      by (cases "extractDocument env (path (entry job)) out config w")
    show ?thesis
    proof (cases res)
      case (Extracted content)
      then show ?thesis
        using True ex by (subst retryLoop.simps, subst retryLoop.simps) auto
    next
      case (ExtractFailed message)
      from "1.IH" [OF True ex [symmetric, unfolded ExtractFailed] refl]
      show ?thesis
        using True ex ExtractFailed by (subst retryLoop.simps, subst retryLoop.simps) simp
    qed
  qed
qed

lemma processJob_terminal:
  assumes "processJob env job config w = (job', w')"
  shows "terminal job' \<and> entry job' = entry job \<and> job_id job' = job_id job"
proof -
  obtain out w1 where gen:
    "generateOutputPath env (path (entry job)) (inputDir config) (outputDir config) config w
       = (out, w1)"
    by (cases "generateOutputPath env (path (entry job)) (inputDir config) (outputDir config)
                 config w")
  show ?thesis
  proof (cases "retryLoop env config out 1 (job\<lparr>status := Processing, startTime := Some (now w)\<rparr>) [] w1")
    case (Inl a)
    then obtain j2 w2 where a: "a = (j2, w2)" by (cases a)
    from retryLoop_result [where job' = j2 and w' = w2] Inl a assms gen
    show ?thesis
      by (auto simp: processJob_def Let_def terminal_def)
  next
    case (Inr b)
    then obtain j2 le w2 where b: "b = (j2, le, w2)" by (cases b)
    from retryLoop_result [where job' = j2 and le' = le and w' = w2] Inr b assms gen
    show ?thesis
      by (auto simp: processJob_def Let_def terminal_def)
  qed
qed

lemma runFileJob_result:
  assumes "runFileJob env config job (g, w) = (rej, job', g', w')"
  shows "isShuttingDown g' = isShuttingDown g \<and> entry job' = entry job \<and>
         (\<not> rej \<longrightarrow> terminal job')"
  using assms
  by (auto simp: runFileJob_def split: option.splits prod.splits if_splits
        dest: processJob_terminal)

lemma runFileBatch_result:
  "runFileBatch env config batch (g, w) = (rej, batch', g', w') \<Longrightarrow>
     isShuttingDown g' = isShuttingDown g \<and> map entry batch' = map entry batch \<and>
     (\<not> rej \<longrightarrow> (\<forall>j \<in> set batch'. terminal j))"
proof (induction batch arbitrary: g w rej batch' g' w')
  case Nil
  then show ?case by simp
next
  case (Cons job rest)
  obtain r1 j1 g1 w1 where a: "runFileJob env config job (g, w) = (r1, j1, g1, w1)"
    by (metis prod_cases4)
  obtain r2 js g2 w2 where b: "runFileBatch env config rest (g1, w1) = (r2, js, g2, w2)"
    by (metis prod_cases4)
  from Cons.prems a b have eq: "rej = (r1 \<or> r2)" "batch' = j1 # js" "g' = g2" "w' = w2"
    by auto
  from runFileJob_result [OF a] Cons.IH [OF b] eq show ?case
    by auto
qed

lemma saveProcessedState_result:
  "saveProcessedState env p (st, w) = (st', w') \<Longrightarrow>
     files st' = files st \<and> fs w' p = Some (JSON_stringify env st') \<and>
     trace w' = trace w @ [WriteFile p (JSON_stringify env st')]"
  by (auto simp: saveProcessedState_def writeFileSync_def Let_def emit_def)

lemma runEachBatch_returned:
  "runEachBatch env config batches (g, w) = (Returned, finished, g', w') \<Longrightarrow>
     map (map entry) finished = map (map entry) batches \<and>
     (\<forall>b \<in> set finished. \<forall>j \<in> set b. terminal j) \<and>
     (batches \<noteq> [] \<longrightarrow>
        fs w' (path_join env (outputDir config) (hashFile config)) =
          Some (JSON_stringify env (state g')))"
proof (induction batches arbitrary: g w finished g' w')
  case Nil
  then show ?case by simp
next
  case (Cons batch rest)
  obtain rej batch' g1 w1 where rb: "runFileBatch env config batch (g, w) = (rej, batch', g1, w1)"
    by (metis prod_cases4)
  obtain st2 w2 where sv:
    "saveProcessedState env (path_join env (outputDir config) (hashFile config)) (state g1, w1)
       = (st2, w2)"
    by (metis surj_pair)
  obtain oc fin g3 w3 where re:
    "runEachBatch env config rest (g1\<lparr>state := st2\<rparr>, w2) = (oc, fin, g3, w3)"
    by (metis prod_cases4)
  from Cons.prems rb sv re have nr: "\<not> rej" and eq: "oc = Returned" "finished = batch' # fin"
      "g' = g3" "w' = w3"
    by (auto split: if_splits)
  note b1 = runFileBatch_result [OF rb]
  note s1 = saveProcessedState_result [OF sv]
  note ih = Cons.IH [OF re [unfolded eq(1)]]
  have last_save: "fs w3 (path_join env (outputDir config) (hashFile config)) =
          Some (JSON_stringify env (state g3))"
  proof (cases rest)
    case Nil
    with re s1 show ?thesis by auto
  next
    case (Cons a list)
    with ih show ?thesis by simp
  qed
  from b1 ih nr eq last_save show ?case
    by simp
qed

lemma fileBatches_refine:
  assumes "1 \<le> concurrentJobs config" "\<not> isShuttingDown g" "0 \<le> i"
  shows "fileBatchesFrom env config jobs i batches (g, w) =
           Some (case runEachBatch env config
                        (chunks (nat (concurrentJobs config)) (drop (nat i) jobs)) (g, w) of
                   (oc, finished, gw') \<Rightarrow> (oc, batches @ finished, gw'))"
  using assms
proof (induction "length jobs - nat i" arbitrary: i batches g w rule: less_induct)
  case less
  let ?c = "concurrentJobs config"
  show ?case
  proof (cases "i < int (length jobs)")
    case False
    then have "drop (nat i) jobs = []" using less.prems by simp
    then show ?thesis
      using False by (subst fileBatchesFrom.simps) (simp add: chunks.simps)
  next
    case True
    have ne: "drop (nat i) jobs \<noteq> []" using True less.prems by simp
    have sl: "slice jobs i (i + ?c) = take (nat ?c) (drop (nat i) jobs)"
      using slice_take_drop [of i ?c jobs] less.prems by simp
    have ch: "chunks (nat ?c) (drop (nat i) jobs) =
                take (nat ?c) (drop (nat i) jobs) # chunks (nat ?c) (drop (nat (i + ?c)) jobs)"
      using ne less.prems
      by (subst chunks.simps) (simp add: nat_add_distrib add.commute)
    obtain rej batch' g1 w1 where rb:
      "runFileBatch env config (take (nat ?c) (drop (nat i) jobs)) (g, w) = (rej, batch', g1, w1)"
      by (metis prod_cases4)
    have sd: "\<not> isShuttingDown g1"
      using runFileBatch_result [OF rb] less.prems by simp
    show ?thesis
    proof (cases rej)
      case True
      then show ?thesis
        using \<open>i < int (length jobs)\<close> less.prems rb sl ch
        by (subst fileBatchesFrom.simps) simp
    next
      case False
      obtain st2 w2 where sv:
        "saveProcessedState env (path_join env (outputDir config) (hashFile config))
           (state g1, w1) = (st2, w2)"
        by (metis surj_pair)
      have m: "length jobs - nat (i + ?c) < length jobs - nat i"
        using \<open>i < int (length jobs)\<close> less.prems by linarith
      have sd2: "\<not> isShuttingDown (g1\<lparr>state := st2\<rparr>)" using sd by simp
      have nn: "0 \<le> i + ?c" using less.prems by simp
      note IH = less.hyps [OF m less.prems(1) sd2 nn, of "batches @ [batch']" w2]
      show ?thesis
        using \<open>i < int (length jobs)\<close> less.prems rb sl ch False sv IH
        by (subst fileBatchesFrom.simps) (simp split: prod.splits)
    qed
  qed
qed






section \<open>What a run writes and where the ledger changes\<close>

lemma written_paths_append [simp]: "written_paths (xs @ ys) = written_paths xs @ written_paths ys"
  by (induction xs rule: written_paths.induct) auto

lemma succeeded_inputs_append [simp]:
  "succeeded_inputs (xs @ ys) = succeeded_inputs xs @ succeeded_inputs ys"
  by (induction xs rule: succeeded_inputs.induct) auto

lemma extracted_into_append_left: "extracted_into p ys \<Longrightarrow> extracted_into p (xs @ ys)"
proof (induction xs)
  case Nil
  then show ?case by simp
next
  case (Cons x xs)
  then show ?case
    by (cases "xs @ ys") auto
qed

lemma extracted_into_append_right: "extracted_into p xs \<Longrightarrow> extracted_into p (xs @ ys)"
  by (induction p xs rule: extracted_into.induct) auto

lemma run_evs_refl [simp]: "run_evs w [] w"
  by (simp add: run_evs_def)

lemma run_evs_trans: "run_evs w a w1 \<Longrightarrow> run_evs w1 b w2 \<Longrightarrow> run_evs w (a @ b) w2"
  by (auto simp: run_evs_def)

lemma run_evs_events [simp]: "run_evs w evs w' \<Longrightarrow> events_since w w' = evs"
  by (simp add: run_evs_def)

lemma run_evs_emit [simp]: "run_evs w [e] (emit e w)"
  by (simp add: run_evs_def emit_def)

lemma run_evs_write [simp]: "run_evs w [WriteFile p c] (writeFileSync p c w)"
  by (simp add: run_evs_def writeFileSync_def emit_def)

lemma run_evs_mkdir [simp]: "run_evs w [MkDir p] (mkdirSync p w)"
  by (simp add: run_evs_def mkdirSync_def emit_def)

lemma run_evs_sleep [simp]: "run_evs w [Sleep ms] (sleep ms w)"
  by (simp add: run_evs_def sleep_def emit_def)

lemma run_evs_copy: "copyFileSync src dst w = Some w' \<Longrightarrow> run_evs w [CopyFile src dst] w'"
  by (auto simp: run_evs_def copyFileSync_def emit_def split: option.splits)

lemma run_evs_mkdir_if:
  "\<exists>evs. run_evs w evs (if b then mkdirSync p w else w) \<and> written_paths evs = []"
proof (cases b)
  case True
  then show ?thesis by (intro exI [of _ "[MkDir p]"]) simp
next
  case False
  then show ?thesis by (intro exI [of _ "[]"]) simp
qed

lemma run_evs_sleep_if: "\<exists>evs. run_evs w evs (if b then sleep ms w else w)"
proof (cases b)
  case True
  then show ?thesis by (intro exI [of _ "[Sleep ms]"]) simp
next
  case False
  then show ?thesis by (intro exI [of _ "[]"]) simp
qed

lemma generateOutputPath_run:
  assumes "generateOutputPath env p inDir outDir config w = (out, w')"
  shows "\<exists>evs. run_evs w evs w' \<and> written_paths evs = []"
proof (cases "preserveStructure config \<and>
    path_dirname env (path_relative env inDir p) \<noteq> ''.''")
  case True
  with assms have "w' = (if \<not> existsSync w (path_join env outDir (path_dirname env (path_relative env inDir p)))
      then mkdirSync (path_join env outDir (path_dirname env (path_relative env inDir p))) w else w)"
    by (auto simp: generateOutputPath_def Let_def)
  then show ?thesis
    using run_evs_mkdir_if by simp
next
  case False
  with assms have "w' = w"
    by (auto simp: generateOutputPath_def Let_def)
  then show ?thesis
    by (intro exI [of _ "[]"]) simp
qed

lemma extractDocument_run:
  "extractDocument env inp out config w = (res, w') \<Longrightarrow>
     \<exists>evs. run_evs w evs w' \<and>
       (\<forall>content. res = Extracted content \<longrightarrow>
          inp \<in> set (succeeded_inputs evs) \<and> extracted_into out evs)"
proof -
  assume a: "extractDocument env inp out config w = (res, w')"
  define cmd where "cmd = ''kreuzberg'' # extractArgs env config w inp"
  define r where "r = kreuzberg env w cmd"
  show ?thesis
  proof (cases r)
    case (SpawnError m)
    with a have "w' = emit (Spawn cmd r) w" "res = ExtractFailed m"
      by (auto simp: extractDocument_def Let_def cmd_def r_def)
    then show ?thesis
      by (intro exI [of _ "[Spawn cmd r]"]) simp
  next
    case (Exited c sout serr)
    show ?thesis
    proof (cases "c = 0")
      case False
      with a Exited have "w' = emit (Spawn cmd r) w" "\<exists>m. res = ExtractFailed m"
        by (auto simp: extractDocument_def Let_def cmd_def r_def)
      then show ?thesis
        by (intro exI [of _ "[Spawn cmd r]"]) auto
    next
      case True
      with a Exited have w': "w' = writeFileSync out sout (emit (Spawn cmd r) w)"
        and res: "res = Extracted sout"
        by (auto simp: extractDocument_def Let_def cmd_def r_def)
      have "run_evs w ([Spawn cmd r] @ [WriteFile out sout]) w'"
        unfolding w' by (rule run_evs_trans [OF run_evs_emit run_evs_write])
      moreover have "inp \<in> set (succeeded_inputs ([Spawn cmd r] @ [WriteFile out sout]))"
        using True Exited by (simp add: cmd_def extractArgs_def)
      moreover have "extracted_into out ([Spawn cmd r] @ [WriteFile out sout])"
        using True Exited by simp
      ultimately show ?thesis
        using res by blast
    qed
  qed
qed

lemma retryLoop_run:
  "(retryLoop env config out a job le w = Inl (job', w') \<longrightarrow>
      (\<exists>evs. run_evs w evs w' \<and> path (entry job) \<in> set (succeeded_inputs evs))) \<and>
   (retryLoop env config out a job le w = Inr (job', le', w') \<longrightarrow> (\<exists>evs. run_evs w evs w'))"
proof (induction env config out a job le w rule: retryLoop.induct)
  case (1 env config out a job le w)
  show ?case
  proof (cases "a \<le> maxRetries config")
    case False
    then show ?thesis
      by (auto simp: retryLoop.simps intro: exI [of _ "[]"])
  next
    case True
    obtain res w1 where ex: "extractDocument env (path (entry job)) out config w = (res, w1)"
      by (cases "extractDocument env (path (entry job)) out config w")
    from extractDocument_run [OF ex] obtain evs1 where
      r1: "run_evs w evs1 w1"
      and s1: "\<forall>content. res = Extracted content \<longrightarrow> path (entry job) \<in> set (succeeded_inputs evs1)"
      by blast
    show ?thesis
    proof (cases res)
      case (Extracted content)
      then show ?thesis
        using True ex r1 s1 by (subst retryLoop.simps, subst retryLoop.simps) auto
    next
      case (ExtractFailed message)
      define w2 where "w2 = (if a < maxRetries config then sleep (retryDelay config) w1 else w1)"
      obtain evs2 where r2: "run_evs w1 evs2 w2"
        unfolding w2_def using run_evs_sleep_if by blast
      note r12 = run_evs_trans [OF r1 r2]
      note ih = "1.IH" [OF True ex [symmetric, unfolded ExtractFailed] refl, folded w2_def]
      have rl: "retryLoop env config out a job le w =
                retryLoop env config out (a + 1) (job\<lparr>job_retries := a\<rparr>)
                  (or_else message ''Unknown error'') w2"
        using True ex ExtractFailed by (subst retryLoop.simps) (simp add: w2_def)
      show ?thesis
        unfolding rl using ih r12
        by (auto dest: run_evs_trans [OF r12])
    qed
  qed
qed

lemma moveToError_run: "\<exists>evs. run_evs w evs (moveToError env p inDir errDir err w)"
proof -
  define ep where "ep = path_join env errDir (path_relative env inDir p)"
  define w1 where "w1 = (if \<not> existsSync w (path_dirname env ep) then mkdirSync (path_dirname env ep) w else w)"
  obtain evs1 where r1: "run_evs w evs1 w1"
    unfolding w1_def using run_evs_mkdir_if by blast
  have mv: "moveToError env p inDir errDir err w =
      (case copyFileSync p ep w1 of
         None \<Rightarrow> w1
       | Some w2 \<Rightarrow> writeFileSync (ep @ ''.error.txt'') (errorLogText env w2 err p) w2)"
    unfolding moveToError_def Let_def ep_def w1_def by (rule refl)
  show ?thesis
  proof (cases "copyFileSync p ep w1")
    case None
    then have "moveToError env p inDir errDir err w = w1"
      by (simp add: mv)
    with r1 show ?thesis by auto
  next
    case (Some w2)
    then have m: "moveToError env p inDir errDir err w =
        writeFileSync (ep @ ''.error.txt'') (errorLogText env w2 err p) w2"
      by (simp add: mv)
    note r2 = run_evs_copy [OF Some]
    have "run_evs w ((evs1 @ [CopyFile p ep]) @ [WriteFile (ep @ ''.error.txt'') (errorLogText env w2 err p)])
            (moveToError env p inDir errDir err w)"
      unfolding m by (rule run_evs_trans [OF run_evs_trans [OF r1 r2]]) simp
    then show ?thesis by blast
  qed
qed

lemma processJob_run:
  assumes "processJob env job config w = (job', w')"
  shows "\<exists>evs. run_evs w evs w' \<and>
           (status job' = Completed \<longrightarrow> path (entry job) \<in> set (succeeded_inputs evs))"
proof -
  obtain out w1 where gen:
    "generateOutputPath env (path (entry job)) (inputDir config) (outputDir config) config w
       = (out, w1)"
    by (cases "generateOutputPath env (path (entry job)) (inputDir config) (outputDir config)
                 config w")
  from generateOutputPath_run [OF gen] obtain evs1 where r1: "run_evs w evs1 w1"
    by blast
  let ?job1 = "job\<lparr>status := Processing, startTime := Some (now w)\<rparr>"
  show ?thesis
  proof (cases "retryLoop env config out 1 ?job1 [] w1")
    case (Inl a)
    then obtain j2 w2 where a: "a = (j2, w2)" by (cases a)
    from retryLoop_run [where job' = j2 and w' = w2 and job = ?job1] Inl a
    obtain evs2 where r2: "run_evs w1 evs2 w2"
      and s2: "path (entry job) \<in> set (succeeded_inputs evs2)"
      by fastforce
    have "job' = j2" "w' = w2"
      using assms gen Inl a by (auto simp: processJob_def Let_def)
    with run_evs_trans [OF r1 r2] s2 show ?thesis
      by (intro exI [of _ "evs1 @ evs2"]) simp
  next
    case (Inr b)
    then obtain j2 le w2 where b: "b = (j2, le, w2)" by (cases b)
    from retryLoop_run [where job' = j2 and le' = le and w' = w2 and job = ?job1] Inr b
    obtain evs2 where r2: "run_evs w1 evs2 w2"
      by fastforce
    have j: "status job' = Failed"
      and w: "w' = moveToError env (path (entry j2)) (inputDir config) (errorDir config) le w2"
      using assms gen Inr b by (auto simp: processJob_def Let_def)
    from moveToError_run [of w2 env "path (entry j2)" "inputDir config" "errorDir config" le]
    obtain evs3 where r3: "run_evs w2 evs3 w'"
      unfolding w by blast
    from run_evs_trans [OF run_evs_trans [OF r1 r2] r3] j show ?thesis
      by auto
  qed
qed

lemma runFileJob_effect:
  assumes "runFileJob env config job (g, w) = (rej, job', g', w')"
  shows "\<exists>evs. run_evs w evs w' \<and>
           (if \<not> rej \<and> status job' = Completed
            then (\<exists>c e. fs w (path (entry job)) = Some c \<and> hash e = md5 env c \<and>
                    g' = g\<lparr>state := (state g)\<lparr>files := (files (state g))(path (entry job) \<mapsto> e)\<rparr>\<rparr> \<and>
                    path (entry job) \<in> set (succeeded_inputs evs))
            else g' = g)"
proof (cases "calculateFileHash env w (path (entry job))")
  case None
  with assms have "rej" "g' = g" "w' = w"
    by (auto simp: runFileJob_def)
  then show ?thesis
    by (intro exI [of _ "[]"]) simp
next
  case (Some h)
  then obtain c where c: "fs w (path (entry job)) = Some c" "h = md5 env c"
    by (auto simp: calculateFileHash_def)
  obtain result w1 where pj: "processJob env job config w = (result, w1)"
    by (cases "processJob env job config w")
  from processJob_run [OF pj] obtain evs1 where r1: "run_evs w evs1 w1"
    and s1: "status result = Completed \<longrightarrow> path (entry job) \<in> set (succeeded_inputs evs1)"
    by blast
  show ?thesis
  proof (cases "status result = Completed")
    case False
    with assms Some pj have "\<not> rej" "job' = result" "g' = g" "w' = w1"
      by (auto simp: runFileJob_def)
    with False r1 show ?thesis
      by (intro exI [of _ evs1]) simp
  next
    case True
    obtain out w2 where gen:
      "generateOutputPath env (path (entry job)) (inputDir config) (outputDir config) config w1
         = (out, w2)"
      by (cases "generateOutputPath env (path (entry job)) (inputDir config) (outputDir config)
                   config w1")
    from generateOutputPath_run [OF gen] obtain evs2 where r2: "run_evs w1 evs2 w2"
      by blast
    from assms Some pj True gen have eq: "\<not> rej" "job' = result" "w' = w2"
      "g' = g\<lparr>state := markFileProcessed env w2 (state g) (path (entry job)) h out (job_retries result)\<rparr>"
      by (auto simp: runFileJob_def)
    define e where "e = \<lparr>hash = md5 env c, outputPath = out,
                           processedAt = toISOString env (now w2), retries = job_retries result\<rparr>"
    have ge: "g' = g\<lparr>state := (state g)\<lparr>files := (files (state g))(path (entry job) \<mapsto> e)\<rparr>\<rparr>"
      using eq(4) c(2) by (simp add: markFileProcessed_def e_def)
    have he: "hash e = md5 env c"
      by (simp add: e_def)
    have si: "path (entry job) \<in> set (succeeded_inputs (evs1 @ evs2))"
      using s1 True by simp
    from eq True c(1) ge he si run_evs_trans [OF r1 r2] show ?thesis
      by (intro exI [of _ "evs1 @ evs2"]) auto
  qed
qed

lemma runFileBatch_effect:
  "runFileBatch env config batch (g, w) = (rej, batch', g', w') \<Longrightarrow>
     \<exists>evs. run_evs w evs w' \<and>
       (\<forall>k. files (state g') k \<noteq> files (state g) k \<longrightarrow>
          (\<exists>j \<in> set batch'. path (entry j) = k \<and> status j = Completed) \<and>
          k \<in> set (succeeded_inputs evs))"
proof (induction batch arbitrary: g w rej batch' g' w')
  case Nil
  then show ?case
    by (intro exI [of _ "[]"]) simp
next
  case (Cons job rest)
  obtain r1 j1 g1 w1 where a: "runFileJob env config job (g, w) = (r1, j1, g1, w1)"
    by (metis prod_cases4)
  obtain r2 js g2 w2 where b: "runFileBatch env config rest (g1, w1) = (r2, js, g2, w2)"
    by (metis prod_cases4)
  from Cons.prems a b have eq: "rej = (r1 \<or> r2)" "batch' = j1 # js" "g' = g2" "w' = w2"
    by auto
  from runFileJob_effect [OF a] obtain evs1 where e1: "run_evs w evs1 w1"
    and f1: "if \<not> r1 \<and> status j1 = Completed
            then (\<exists>c e. fs w (path (entry job)) = Some c \<and> hash e = md5 env c \<and>
                    g1 = g\<lparr>state := (state g)\<lparr>files := (files (state g))(path (entry job) \<mapsto> e)\<rparr>\<rparr> \<and>
                    path (entry job) \<in> set (succeeded_inputs evs1))
            else g1 = g"
    by blast
  have ent: "entry j1 = entry job"
    using runFileJob_result [OF a] by simp
  from Cons.IH [OF b] obtain evs2 where e2: "run_evs w1 evs2 w2"
    and f2: "\<forall>k. files (state g2) k \<noteq> files (state g1) k \<longrightarrow>
          (\<exists>j \<in> set js. path (entry j) = k \<and> status j = Completed) \<and>
          k \<in> set (succeeded_inputs evs2)"
    by blast
  have "\<forall>k. files (state g2) k \<noteq> files (state g) k \<longrightarrow>
          (\<exists>j \<in> set (j1 # js). path (entry j) = k \<and> status j = Completed) \<and>
          k \<in> set (succeeded_inputs (evs1 @ evs2))"
  proof (intro allI impI)
    fix k assume ch: "files (state g2) k \<noteq> files (state g) k"
    show "(\<exists>j \<in> set (j1 # js). path (entry j) = k \<and> status j = Completed) \<and>
          k \<in> set (succeeded_inputs (evs1 @ evs2))"
    proof (cases "files (state g2) k \<noteq> files (state g1) k")
      case True
      with f2 show ?thesis by auto
    next
      case False
      with ch have c1: "files (state g1) k \<noteq> files (state g) k" by simp
      then have "g1 \<noteq> g" by auto
      with f1 have m: "\<not> r1 \<and> status j1 = Completed" by (auto split: if_splits)
      with f1 obtain c e where
        g1: "g1 = g\<lparr>state := (state g)\<lparr>files := (files (state g))(path (entry job) \<mapsto> e)\<rparr>\<rparr>"
        and s: "path (entry job) \<in> set (succeeded_inputs evs1)"
        by auto
      from c1 g1 have "k = path (entry job)"
        by (auto split: if_splits)
      with m s ent show ?thesis by auto
    qed
  qed
  with run_evs_trans [OF e1 e2] eq show ?case
    by blast
qed

lemma saveProcessedState_run:
  "saveProcessedState env p (st, w) = (st', w') \<Longrightarrow>
     files st' = files st \<and> run_evs w [WriteFile p (JSON_stringify env st')] w'"
  by (auto simp: saveProcessedState_def Let_def)

lemma fileBatchesFrom_effect:
  assumes "fileBatchesFrom env config jobs i batches gw = Some r"
  shows "\<exists>rest evs. fst (snd r) = batches @ rest \<and>
           run_evs (snd gw) evs (snd (snd (snd r))) \<and>
           (\<forall>k. files (state (fst (snd (snd r)))) k \<noteq> files (state (fst gw)) k \<longrightarrow>
              (\<exists>j \<in> set (concat rest). path (entry j) = k \<and> status j = Completed) \<and>
              k \<in> set (succeeded_inputs evs))"
proof (rule fileBatchesFrom.raw_induct
    [where P = "\<lambda>env config jobs i batches gw r.
       \<exists>rest evs. fst (snd r) = batches @ rest \<and>
           run_evs (snd gw) evs (snd (snd (snd r))) \<and>
           (\<forall>k. files (state (fst (snd (snd r)))) k \<noteq> files (state (fst gw)) k \<longrightarrow>
              (\<exists>j \<in> set (concat rest). path (entry j) = k \<and> status j = Completed) \<and>
              k \<in> set (succeeded_inputs evs))"])
  show "fileBatchesFrom env config jobs i batches gw = Some r" by fact
next
  fix f :: "env \<Rightarrow> Config \<Rightarrow> ProcessingJob list \<Rightarrow> int \<Rightarrow> ProcessingJob list list \<Rightarrow>
              globals \<times> world \<Rightarrow> (outcome \<times> ProcessingJob list list \<times> globals \<times> world) option"
  fix env config jobs i batches gw r
  assume IH: "\<And>env config jobs i batches gw r. f env config jobs i batches gw = Some r \<Longrightarrow>
       \<exists>rest evs. fst (snd r) = batches @ rest \<and>
           run_evs (snd gw) evs (snd (snd (snd r))) \<and>
           (\<forall>k. files (state (fst (snd (snd r)))) k \<noteq> files (state (fst gw)) k \<longrightarrow>
              (\<exists>j \<in> set (concat rest). path (entry j) = k \<and> status j = Completed) \<and>
              k \<in> set (succeeded_inputs evs))"
  assume body: "(if i < int (length jobs)
      then if isShuttingDown (fst gw) then Some (Returned, batches, gw)
           else case runFileBatch env config (slice jobs i (i + concurrentJobs config)) gw of
                (rejected, batch', g1, w1) \<Rightarrow>
                  if rejected then Some (Threw, batches @ [batch'], g1, w1)
                  else case saveProcessedState env
                             (path_join env (outputDir config) (hashFile config))
                             (state g1, w1) of
                       (st2, w2) \<Rightarrow>
                         f env config jobs (i + concurrentJobs config) (batches @ [batch'])
                           (g1\<lparr>state := st2\<rparr>, w2)
      else Some (Returned, batches, gw)) = Some r"
  obtain g w where gw: "gw = (g, w)" by (cases gw)
  let ?goal = "\<exists>rest evs. fst (snd r) = batches @ rest \<and>
           run_evs (snd gw) evs (snd (snd (snd r))) \<and>
           (\<forall>k. files (state (fst (snd (snd r)))) k \<noteq> files (state (fst gw)) k \<longrightarrow>
              (\<exists>j \<in> set (concat rest). path (entry j) = k \<and> status j = Completed) \<and>
              k \<in> set (succeeded_inputs evs))"
  show ?goal
  proof (cases "i < int (length jobs) \<and> \<not> isShuttingDown (fst gw)")
    case False
    with body have "r = (Returned, batches, gw)"
      by (auto split: if_splits)
    then show ?thesis
      by (intro exI [of _ "[]"]) simp
  next
    case True
    obtain rej batch' g1 w1 where rb:
      "runFileBatch env config (slice jobs i (i + concurrentJobs config)) (g, w) = (rej, batch', g1, w1)"
      by (metis prod_cases4)
    from runFileBatch_effect [OF rb] obtain evs1 where e1: "run_evs w evs1 w1"
      and f1: "\<forall>k. files (state g1) k \<noteq> files (state g) k \<longrightarrow>
          (\<exists>j \<in> set batch'. path (entry j) = k \<and> status j = Completed) \<and>
          k \<in> set (succeeded_inputs evs1)"
      by blast
    show ?thesis
    proof (cases rej)
      case True
      with body \<open>i < int (length jobs) \<and> \<not> isShuttingDown (fst gw)\<close> rb gw
      have "r = (Threw, batches @ [batch'], g1, w1)"
        by simp
      with e1 f1 gw show ?thesis
        by (intro exI [of _ "[batch']"] exI [of _ evs1]) simp
    next
      case False
      obtain st2 w2 where sv:
        "saveProcessedState env (path_join env (outputDir config) (hashFile config))
           (state g1, w1) = (st2, w2)"
        by (metis surj_pair)
      note s = saveProcessedState_run [OF sv]
      from body \<open>i < int (length jobs) \<and> \<not> isShuttingDown (fst gw)\<close> rb gw False sv
      have rec: "f env config jobs (i + concurrentJobs config) (batches @ [batch'])
                   (g1\<lparr>state := st2\<rparr>, w2) = Some r"
        by simp
      from IH [OF rec] obtain rest evs3 where
        p: "fst (snd r) = (batches @ [batch']) @ rest"
        and e3: "run_evs w2 evs3 (snd (snd (snd r)))"
        and f3: "\<forall>k. files (state (fst (snd (snd r)))) k \<noteq> files st2 k \<longrightarrow>
              (\<exists>j \<in> set (concat rest). path (entry j) = k \<and> status j = Completed) \<and>
              k \<in> set (succeeded_inputs evs3)"
        by auto
      have e: "run_evs w (evs1 @ [WriteFile (path_join env (outputDir config) (hashFile config))
                  (JSON_stringify env st2)] @ evs3) (snd (snd (snd r)))"
        using run_evs_trans [OF e1 run_evs_trans [OF conjunct2 [OF s] e3]] .
      let ?evs = "evs1 @ [WriteFile (path_join env (outputDir config) (hashFile config))
                  (JSON_stringify env st2)] @ evs3"
      have k: "\<forall>k. files (state (fst (snd (snd r)))) k \<noteq> files (state g) k \<longrightarrow>
              (\<exists>j \<in> set (concat (batch' # rest)). path (entry j) = k \<and> status j = Completed) \<and>
              k \<in> set (succeeded_inputs ?evs)"
      proof (intro allI impI)
        fix k assume ch: "files (state (fst (snd (snd r)))) k \<noteq> files (state g) k"
        show "(\<exists>j \<in> set (concat (batch' # rest)). path (entry j) = k \<and> status j = Completed) \<and>
              k \<in> set (succeeded_inputs ?evs)"
        proof (cases "files (state (fst (snd (snd r)))) k \<noteq> files st2 k")
          case True
          with f3 have "(\<exists>j \<in> set (concat rest). path (entry j) = k \<and> status j = Completed) \<and>
              k \<in> set (succeeded_inputs evs3)" by blast
          then show ?thesis by auto
        next
          case False
          with ch s have "files (state g1) k \<noteq> files (state g) k" by simp
          with f1 have "(\<exists>j \<in> set batch'. path (entry j) = k \<and> status j = Completed) \<and>
              k \<in> set (succeeded_inputs evs1)" by blast
          then show ?thesis by auto
        qed
      qed
      have p': "fst (snd r) = batches @ (batch' # rest)"
        using p by simp
      from p' e k gw show ?thesis
        by (intro exI [of _ "batch' # rest"] exI [of _ ?evs]) simp
    qed
  qed
qed

lemma fetchWithNative_run:
  "fetchWithNative env u config w = (r, w') \<Longrightarrow> run_evs w [HttpGet u (nativeHeaders config)] w'"
  by (auto simp: fetchWithNative_def Let_def split: http_result.splits if_splits)

lemma fetchWithPlaywright_run:
  "fetchWithPlaywright env u config w = (r, w') \<Longrightarrow>
     run_evs w (if playwrightEnabled config then [LaunchBrowser u] else []) w'"
  by (auto simp: fetchWithPlaywright_def Let_def split: sum.splits if_splits)

lemma fetchWithBrowserless_run:
  "fetchWithBrowserless env u config w = (r, w') \<Longrightarrow>
     \<exists>evs. run_evs w evs w' \<and> written_paths evs = [] \<and> spawn_results evs = []"
proof (cases "browserlessEnabled config")
  case False
  assume "fetchWithBrowserless env u config w = (r, w')"
  with False have "w' = w" by (simp add: fetchWithBrowserless_def)
  then show ?thesis by (intro exI [of _ "[]"]) simp
next
  case True
  assume "fetchWithBrowserless env u config w = (r, w')"
  with True have "w' = emit (HttpPost (browserlessUrl config @ ''/content'') (browserlessHeaders config)
                         (browserlessBody env u config)) w"
    by (auto simp: fetchWithBrowserless_def Let_def split: http_result.splits if_splits)
  then show ?thesis
    by (intro exI [of _ "[HttpPost (browserlessUrl config @ ''/content'') (browserlessHeaders config)
                         (browserlessBody env u config)]"]) simp
qed

lemma fetchUrl_run:
  assumes "fetchUrl env u config w = (r, w')"
  shows "\<exists>evs. run_evs w evs w' \<and> written_paths evs = [] \<and> spawn_results evs = []"
proof -
  obtain r1 w1 where l1: "fetchWithNative env u config w = (r1, w1)"
    by (cases "fetchWithNative env u config w")
  obtain r2 w2 where l2: "fetchWithPlaywright env u config w1 = (r2, w2)"
    by (cases "fetchWithPlaywright env u config w1")
  obtain r3 w3 where l3: "fetchWithBrowserless env u config w2 = (r3, w3)"
    by (cases "fetchWithBrowserless env u config w2")
  note e1 = fetchWithNative_run [OF l1]
  note e2 = fetchWithPlaywright_run [OF l2]
  from fetchWithBrowserless_run [OF l3] obtain evs3 where
    e3: "run_evs w2 evs3 w3" "written_paths evs3 = []" "spawn_results evs3 = []"
    by blast
  note e12 = run_evs_trans [OF e1 e2]
  note e123 = run_evs_trans [OF e12 e3(1)]
  from assms l1 l2 l3 have "w' = w1 \<or> w' = w2 \<or> w' = w3"
    by (auto simp: fetchUrl_def split: if_splits)
  then show ?thesis
  proof (elim disjE)
    assume "w' = w1"
    with e1 show ?thesis
      by (intro exI [of _ "[HttpGet u (nativeHeaders config)]"]) simp
  next
    assume "w' = w2"
    with e12 show ?thesis
      by (intro exI [of _ "[HttpGet u (nativeHeaders config)] @
                             (if playwrightEnabled config then [LaunchBrowser u] else [])"]) simp
  next
    assume "w' = w3"
    with e123 e3 show ?thesis
      by (intro exI [of _ "([HttpGet u (nativeHeaders config)] @
                             (if playwrightEnabled config then [LaunchBrowser u] else [])) @ evs3"]) simp
  qed
qed

lemma processUrlEntry_effect:
  assumes "processUrlEntry env config u (g, w) = (g', w')"
  shows "\<exists>evs. run_evs w evs w' \<and>
           (g' = g \<or>
            (\<exists>e. g' = g\<lparr>state := (state g)\<lparr>files := (files (state g))(entry_url u \<mapsto> e)\<rparr>\<rparr> \<and>
                 hash e = md5 env (entry_url u) \<and> extracted_into (outputPath e) evs))"
proof (cases "isFileProcessed (state g) (entry_url u) (calculateStringHash env (entry_url u))")
  case True
  with assms have "g' = g" "w' = w"
    by (auto simp: processUrlEntry_def Let_def)
  then show ?thesis by (intro exI [of _ "[]"]) simp
next
  case False
  obtain result w1 where fu: "fetchUrl env (entry_url u) config w = (result, w1)"
    by (cases "fetchUrl env (entry_url u) config w")
  from fetchUrl_run [OF fu] obtain evs1 where e1: "run_evs w evs1 w1"
    by blast
  show ?thesis
  proof (cases "success result")
    case False
    with assms \<open>\<not> isFileProcessed (state g) (entry_url u) (calculateStringHash env (entry_url u))\<close> fu
    have "g' = g" "w' = w1"
      by (auto simp: processUrlEntry_def Let_def)
    with e1 show ?thesis by blast
  next
    case True
    define tempDir where "tempDir = path_join env (inputDir config) ''.url-cache''"
    define tempPath where
      "tempPath = path_join env tempDir (urlToFilename env w (entry_url u) (filename u))"
    define w2 where "w2 = (if \<not> existsSync w1 tempDir then mkdirSync tempDir w1 else w1)"
    define w3 where "w3 = writeFileSync tempPath (html result) w2"
    obtain evs2 where e2: "run_evs w1 evs2 w2"
      unfolding w2_def using run_evs_mkdir_if by blast
    have e3: "run_evs w2 [WriteFile tempPath (html result)] w3"
      by (simp add: w3_def)
    obtain out w4 where gen:
      "generateOutputPath env tempPath (inputDir config) (outputDir config) config w3 = (out, w4)"
      by (cases "generateOutputPath env tempPath (inputDir config) (outputDir config) config w3")
    from generateOutputPath_run [OF gen] obtain evs4 where e4: "run_evs w3 evs4 w4"
      by blast
    obtain res w5 where ex: "extractDocument env tempPath out config w4 = (res, w5)"
      by (cases "extractDocument env tempPath out config w4")
    from extractDocument_run [OF ex] obtain evs5 where e5: "run_evs w4 evs5 w5"
      and x5: "\<forall>content. res = Extracted content \<longrightarrow> extracted_into out evs5"
      by blast
    let ?evs = "(((evs1 @ evs2) @ [WriteFile tempPath (html result)]) @ evs4) @ evs5"
    have e: "run_evs w ?evs w5"
      by (intro run_evs_trans [OF _ e5] run_evs_trans [OF _ e4] run_evs_trans [OF _ e3]
            run_evs_trans [OF e1 e2])
    have unf: "processUrlEntry env config u (g, w) =
        (case res of
           Extracted content \<Rightarrow>
             (g\<lparr>state := markFileProcessed env w5 (state g) (entry_url u)
                            (calculateStringHash env (entry_url u)) out 0\<rparr>, w5)
         | ExtractFailed message \<Rightarrow> (g, w5))"
      using \<open>\<not> isFileProcessed (state g) (entry_url u) (calculateStringHash env (entry_url u))\<close>
        fu True gen ex
      by (simp add: processUrlEntry_def Let_def tempDir_def [symmetric] tempPath_def [symmetric]
            w2_def [symmetric] w3_def [symmetric])
    show ?thesis
    proof (cases res)
      case (ExtractFailed message)
      with unf assms have "g' = g" "w' = w5" by auto
      with e show ?thesis by blast
    next
      case (Extracted content)
      define en where "en = \<lparr>hash = md5 env (entry_url u), outputPath = out,
                             processedAt = toISOString env (now w5), retries = 0\<rparr>"
      from Extracted unf assms have
        g': "g' = g\<lparr>state := (state g)\<lparr>files := (files (state g))(entry_url u \<mapsto> en)\<rparr>\<rparr>"
        and w': "w' = w5"
        by (auto simp: markFileProcessed_def calculateStringHash_def en_def)
      have x: "extracted_into out evs5"
        using x5 Extracted by simp
      have "extracted_into (outputPath en) ?evs"
        using extracted_into_append_left
          [OF x, of "((evs1 @ evs2) @ [WriteFile tempPath (html result)]) @ evs4"]
        by (simp add: en_def)
      moreover have "hash en = md5 env (entry_url u)"
        by (simp add: en_def)
      ultimately show ?thesis
        using g' w' e by blast
    qed
  qed
qed

lemma processUrlEntries_effect:
  "processUrlEntries env config urls (g, w) = (g', w') \<Longrightarrow>
     \<exists>evs. run_evs w evs w' \<and> isShuttingDown g' = isShuttingDown g \<and>
       (\<forall>k. files (state g') k \<noteq> files (state g) k \<longrightarrow>
          (\<exists>e. files (state g') k = Some e \<and> k \<in> entry_url ` set urls \<and>
               hash e = md5 env k \<and> extracted_into (outputPath e) evs))"
proof (induction urls arbitrary: g w)
  case Nil
  then show ?case by (intro exI [of _ "[]"]) simp
next
  case (Cons u rest)
  show ?case
  proof (cases "isShuttingDown g")
    case True
    with Cons.prems have "g' = g" "w' = w" by auto
    then show ?thesis by (intro exI [of _ "[]"]) simp
  next
    case False
    obtain g1 w1 where st: "processUrlEntry env config u (g, w) = (g1, w1)"
      by (cases "processUrlEntry env config u (g, w)")
    with Cons.prems False have rec: "processUrlEntries env config rest (g1, w1) = (g', w')"
      by simp
    from processUrlEntry_effect [OF st] obtain evs1 where e1: "run_evs w evs1 w1"
      and f1: "g1 = g \<or>
            (\<exists>e. g1 = g\<lparr>state := (state g)\<lparr>files := (files (state g))(entry_url u \<mapsto> e)\<rparr>\<rparr> \<and>
                 hash e = md5 env (entry_url u) \<and> extracted_into (outputPath e) evs1)"
      by blast
    from Cons.IH [OF rec] obtain evs2 where e2: "run_evs w1 evs2 w'"
      and sd: "isShuttingDown g' = isShuttingDown g1"
      and f2: "\<forall>k. files (state g') k \<noteq> files (state g1) k \<longrightarrow>
          (\<exists>e. files (state g') k = Some e \<and> k \<in> entry_url ` set rest \<and>
               hash e = md5 env k \<and> extracted_into (outputPath e) evs2)"
      by blast
    have sd1: "isShuttingDown g1 = isShuttingDown g"
      using f1 by auto
    have "\<forall>k. files (state g') k \<noteq> files (state g) k \<longrightarrow>
          (\<exists>e. files (state g') k = Some e \<and> k \<in> entry_url ` set (u # rest) \<and>
               hash e = md5 env k \<and> extracted_into (outputPath e) (evs1 @ evs2))"
    proof (intro allI impI)
      fix k assume ch: "files (state g') k \<noteq> files (state g) k"
      show "\<exists>e. files (state g') k = Some e \<and> k \<in> entry_url ` set (u # rest) \<and>
               hash e = md5 env k \<and> extracted_into (outputPath e) (evs1 @ evs2)"
      proof (cases "files (state g') k \<noteq> files (state g1) k")
        case True
        with f2 obtain e where "files (state g') k = Some e" "k \<in> entry_url ` set rest"
          "hash e = md5 env k" "extracted_into (outputPath e) evs2" by blast
        then show ?thesis
          by (auto intro: extracted_into_append_left)
      next
        case False
        with ch have c1: "files (state g1) k \<noteq> files (state g) k" by simp
        with f1 obtain e where
          g1: "g1 = g\<lparr>state := (state g)\<lparr>files := (files (state g))(entry_url u \<mapsto> e)\<rparr>\<rparr>"
          and he: "hash e = md5 env (entry_url u)"
          and x: "extracted_into (outputPath e) evs1"
          by auto
        from c1 g1 have k: "k = entry_url u" by (auto split: if_splits)
        with g1 False have "files (state g') k = Some e" by simp
        with k he x show ?thesis
          by (auto intro: extracted_into_append_right)
      qed
    qed
    with run_evs_trans [OF e1 e2] sd sd1 show ?thesis by blast
  qed
qed

lemma processUrlFile_effect:
  assumes "processUrlFile env config urlFilePath (g, w) = (oc, g', w')"
  shows "\<exists>evs. run_evs w evs w' \<and> isShuttingDown g' = isShuttingDown g \<and>
           (\<forall>k e. files (state g') k = Some e \<and> files (state g') k \<noteq> files (state g) k \<longrightarrow>
              (k = urlFilePath \<and> outputPath e = ''url-list-processed'') \<or>
              (k \<in> entry_url ` set (parseUrlFile env w urlFilePath) \<and> hash e = md5 env k \<and>
               extracted_into (outputPath e) evs))"
proof (cases "parseUrlFile env w urlFilePath = []")
  case True
  with assms have "g' = g" "w' = w" by (auto simp: processUrlFile_def)
  then show ?thesis by (intro exI [of _ "[]"]) simp
next
  case False
  obtain g1 w1 where lp:
    "processUrlEntries env config (parseUrlFile env w urlFilePath) (g, w) = (g1, w1)"
    by (cases "processUrlEntries env config (parseUrlFile env w urlFilePath) (g, w)")
  from processUrlEntries_effect [OF lp] obtain evs where e: "run_evs w evs w1"
    and sd: "isShuttingDown g1 = isShuttingDown g"
    and f: "\<forall>k. files (state g1) k \<noteq> files (state g) k \<longrightarrow>
          (\<exists>e. files (state g1) k = Some e \<and> k \<in> entry_url ` set (parseUrlFile env w urlFilePath) \<and>
               hash e = md5 env k \<and> extracted_into (outputPath e) evs)"
    by blast
  show ?thesis
  proof (cases "calculateFileHash env w1 urlFilePath")
    case None
    with assms False lp have "g' = g1" "w' = w1"
      by (auto simp: processUrlFile_def Let_def)
    with e sd f show ?thesis
      by (intro exI [of _ evs]) auto
  next
    case (Some h)
    with assms False lp have
      g': "g' = g1\<lparr>state := markFileProcessed env w1 (state g1) urlFilePath h ''url-list-processed'' 0\<rparr>"
      and w': "w' = w1"
      by (auto simp: processUrlFile_def Let_def)
    have "\<forall>k e. files (state g') k = Some e \<and> files (state g') k \<noteq> files (state g) k \<longrightarrow>
              (k = urlFilePath \<and> outputPath e = ''url-list-processed'') \<or>
              (k \<in> entry_url ` set (parseUrlFile env w urlFilePath) \<and> hash e = md5 env k \<and>
               extracted_into (outputPath e) evs)"
    proof (intro allI impI)
      fix k e assume a: "files (state g') k = Some e \<and> files (state g') k \<noteq> files (state g) k"
      show "(k = urlFilePath \<and> outputPath e = ''url-list-processed'') \<or>
              (k \<in> entry_url ` set (parseUrlFile env w urlFilePath) \<and> hash e = md5 env k \<and>
               extracted_into (outputPath e) evs)"
      proof (cases "k = urlFilePath")
        case True
        with a g' show ?thesis by (auto simp: markFileProcessed_def)
      next
        case False
        with g' have "files (state g') k = files (state g1) k"
          by (simp add: markFileProcessed_def)
        with a f show ?thesis by auto
      qed
    qed
    with e sd g' w' show ?thesis
      by (intro exI [of _ evs]) simp
  qed
qed

section \<open>Ledger entries and successful extractions (C1)\<close>

lemma demo_url_run_result:
  "(case demo_url_run of (oc, g, w) \<Rightarrow>
      (oc, map_option outputPath (files (state g) ''/in/list.txt''),
       spawn_results (events_since demo_world w))) =
   (Returned, Some ''url-list-processed'', [])"
  by code_simp

lemma demo_file_run_result:
  "(case demo_file_run of None \<Rightarrow> False
    | Some (oc, fin, g, w) \<Rightarrow> files (state g) ''/in/a.pdf'' \<noteq> None)"
  by code_simp

text \<open>
  C1, as the code has it. When \<^verbatim>\<open>processFiles\<close> has returned, every ledger key whose
  entry is not what it was before the call is the path of a job of that call that reached
  completed, and a gateway call on that path exited with code 0 during the call; and, the
  jobs having distinct paths, a job that ends failed leaves the entry of its path as it
  was. When \<^verbatim>\<open>processUrlFile\<close> has returned, a key whose entry is new or changed is
  either a URL of the list, recorded with the output path to which the output of a gateway
  call that exited with code 0 was written, or the list file itself, which is recorded
  with the marker \<open>url-list-processed\<close> whatever became of its URLs.
\<close>

theorem ledger_entries_only_after_success:
  "(processFiles env config entries (g, w) = Some (oc, finished, g', w') \<longrightarrow>
      (\<forall>k. files (state g') k \<noteq> files (state g) k \<longrightarrow>
           (\<exists>j \<in> set (concat finished). path (entry j) = k \<and> status j = Completed) \<and>
           k \<in> set (succeeded_inputs (events_since w w'))) \<and>
      (distinct (map (\<lambda>j. path (entry j)) (concat finished)) \<longrightarrow>
         (\<forall>j \<in> set (concat finished). status j = Failed \<longrightarrow>
            files (state g') (path (entry j)) = files (state g) (path (entry j))))) \<and>
   (processUrlFile env config urlFilePath (g, w) = (ocu, gu, wu) \<longrightarrow>
      (\<forall>k e. files (state gu) k = Some e \<and> files (state gu) k \<noteq> files (state g) k \<longrightarrow>
          (k = urlFilePath \<and> outputPath e = ''url-list-processed'') \<or>
          (k \<in> entry_url ` set (parseUrlFile env w urlFilePath) \<and>
           extracted_into (outputPath e) (events_since w wu))))"
proof (intro conjI impI)
  assume pf: "processFiles env config entries (g, w) = Some (oc, finished, g', w')"
  have main: "\<forall>k. files (state g') k \<noteq> files (state g) k \<longrightarrow>
           (\<exists>j \<in> set (concat finished). path (entry j) = k \<and> status j = Completed) \<and>
           k \<in> set (succeeded_inputs (events_since w w'))"
  proof (cases "selectNewFiles env config (state g) w entries")
    case None
    with pf show ?thesis by (simp add: processFiles_def)
  next
    case (Some newFiles)
    show ?thesis
    proof (cases "newFiles = []")
      case True
      with pf Some show ?thesis by (simp add: processFiles_def)
    next
      case False
      with pf Some have
        "fileBatchesFrom env config (createJobs w newFiles) 0 [] (g, w) = Some (oc, finished, g', w')"
        by (simp add: processFiles_def)
      from fileBatchesFrom_effect [OF this] show ?thesis
        by auto
    qed
  qed
  show "\<forall>k. files (state g') k \<noteq> files (state g) k \<longrightarrow>
           (\<exists>j \<in> set (concat finished). path (entry j) = k \<and> status j = Completed) \<and>
           k \<in> set (succeeded_inputs (events_since w w'))"
    by (rule main)
  show "\<forall>j \<in> set (concat finished). status j = Failed \<longrightarrow>
            files (state g') (path (entry j)) = files (state g) (path (entry j))"
    if d: "distinct (map (\<lambda>j. path (entry j)) (concat finished))"
  proof (intro ballI impI)
    fix j assume j: "j \<in> set (concat finished)" and f: "status j = Failed"
    show "files (state g') (path (entry j)) = files (state g) (path (entry j))"
    proof (rule ccontr)
      assume "files (state g') (path (entry j)) \<noteq> files (state g) (path (entry j))"
      with main obtain j2 where j2: "j2 \<in> set (concat finished)"
        "path (entry j2) = path (entry j)" "status j2 = Completed"
        by blast
      from d have "inj_on (\<lambda>j. path (entry j)) (set (concat finished))"
        by (simp add: distinct_map)
      with j j2 have "j2 = j"
        by (auto dest: inj_onD)
      with j2 f show False by simp
    qed
  qed
next
  assume pu: "processUrlFile env config urlFilePath (g, w) = (ocu, gu, wu)"
  from processUrlFile_effect [OF pu] obtain evs where e: "run_evs w evs wu"
    and f: "\<forall>k e. files (state gu) k = Some e \<and> files (state gu) k \<noteq> files (state g) k \<longrightarrow>
              (k = urlFilePath \<and> outputPath e = ''url-list-processed'') \<or>
              (k \<in> entry_url ` set (parseUrlFile env w urlFilePath) \<and> hash e = md5 env k \<and>
               extracted_into (outputPath e) evs)"
    by blast
  have "events_since w wu = evs"
    using e by simp
  with f show "\<forall>k e. files (state gu) k = Some e \<and> files (state gu) k \<noteq> files (state g) k \<longrightarrow>
          (k = urlFilePath \<and> outputPath e = ''url-list-processed'') \<or>
          (k \<in> entry_url ` set (parseUrlFile env w urlFilePath) \<and>
           extracted_into (outputPath e) (events_since w wu))"
    by blast
qed

theorem ledger_entries_only_after_success_witness:
  "(\<exists>oc fin g2 w2.
      processFiles demo_env_ok demo_config [demo_entry] (demo_globals, demo_world) =
        Some (oc, fin, g2, w2) \<and>
      files (state g2) ''/in/a.pdf'' \<noteq> files (state demo_globals) ''/in/a.pdf'' \<and>
      (\<exists>j \<in> set (concat fin). path (entry j) = ''/in/a.pdf'' \<and> status j = Completed) \<and>
      ''/in/a.pdf'' \<in> set (succeeded_inputs (events_since demo_world w2))) \<and>
   (\<exists>oc g2 w2 e.
      processUrlFile demo_env demo_offline ''/in/list.txt'' (demo_globals, demo_world) =
        (oc, g2, w2) \<and>
      files (state g2) ''/in/list.txt'' = Some e \<and>
      files (state g2) ''/in/list.txt'' \<noteq> files (state demo_globals) ''/in/list.txt'' \<and>
      ((''/in/list.txt'' = ''/in/list.txt'' \<and> outputPath e = ''url-list-processed'') \<or>
       (''/in/list.txt'' \<in> entry_url ` set (parseUrlFile demo_env demo_world ''/in/list.txt'') \<and>
        extracted_into (outputPath e) (events_since demo_world w2))))"
proof -
  have n: "files (state demo_globals) k = None" for k
    by (simp add: demo_globals_def empty_state_def)
  obtain oc fin g2 w2 where r: "demo_file_run = Some (oc, fin, g2, w2)"
    and c: "files (state g2) ''/in/a.pdf'' \<noteq> None"
    using demo_file_run_result by (auto split: option.splits)
  from r have r': "processFiles demo_env_ok demo_config [demo_entry] (demo_globals, demo_world) =
                     Some (oc, fin, g2, w2)"
    by (simp add: demo_file_run_def)
  from c n have ch: "files (state g2) ''/in/a.pdf'' \<noteq> files (state demo_globals) ''/in/a.pdf''"
    by simp
  from ledger_entries_only_after_success
         [where env = demo_env_ok and config = demo_config and entries = "[demo_entry]"
            and g = demo_globals and w = demo_world and oc = oc and finished = fin
            and g' = g2 and w' = w2] r' ch
  have file_part:
    "(\<exists>j \<in> set (concat fin). path (entry j) = ''/in/a.pdf'' \<and> status j = Completed) \<and>
     ''/in/a.pdf'' \<in> set (succeeded_inputs (events_since demo_world w2))"
    by blast
  obtain oc3 g3 w3 where u: "demo_url_run = (oc3, g3, w3)"
    by (cases demo_url_run)
  from u have u': "processUrlFile demo_env demo_offline ''/in/list.txt'' (demo_globals, demo_world) =
                     (oc3, g3, w3)"
    by (simp add: demo_url_run_def)
  from demo_url_run_result
  have "map_option outputPath (files (state g3) ''/in/list.txt'') = Some ''url-list-processed''"
    by (simp add: u)
  then obtain e where e: "files (state g3) ''/in/list.txt'' = Some e"
    by (cases "files (state g3) ''/in/list.txt''") simp_all
  from e n have ch3: "files (state g3) ''/in/list.txt'' \<noteq> files (state demo_globals) ''/in/list.txt''"
    by simp
  from ledger_entries_only_after_success
         [where env = demo_env and config = demo_offline and urlFilePath = "''/in/list.txt''"
            and g = demo_globals and w = demo_world and ocu = oc3 and gu = g3 and wu = w3]
       u' e ch3
  have url_part:
    "(''/in/list.txt'' = ''/in/list.txt'' \<and> outputPath e = ''url-list-processed'') \<or>
     (''/in/list.txt'' \<in> entry_url ` set (parseUrlFile demo_env demo_world ''/in/list.txt'') \<and>
      extracted_into (outputPath e) (events_since demo_world w3))"
    by blast
  from r' ch file_part u' e ch3 url_part show ?thesis
    by blast
qed

text \<open>
  C1 as stated fails for the key of a URL list. The only URL of \<^verbatim>\<open>/in/list.txt\<close> cannot be
  fetched by any layer, so no job runs and the gateway is never called; the list file,
  which had no entry, is in the ledger afterwards, marked \<open>url-list-processed\<close>.
\<close>

theorem url_list_recorded_without_extraction_counterexample:
  "(case processUrlFile demo_env demo_offline ''/in/list.txt'' (demo_globals, demo_world) of
      (oc, g2, w2) \<Rightarrow>
        oc = Returned \<and>
        files (state demo_globals) ''/in/list.txt'' = None \<and>
        map_option outputPath (files (state g2) ''/in/list.txt'') = Some ''url-list-processed'' \<and>
        spawn_results (events_since demo_world w2) = [])"
  using demo_url_run_result
  by (simp add: demo_url_run_def demo_globals_def empty_state_def split: prod.splits)

section \<open>What a cycle keeps of the ledger\<close>

lemma run_evs_unique: "run_evs w evs w' \<Longrightarrow> run_evs w evs' w' \<Longrightarrow> evs' = evs"
  by (simp add: run_evs_def)

lemma run_evs_fs: "run_evs w evs w' \<Longrightarrow> p \<notin> set (written_paths evs) \<Longrightarrow> fs w' p = fs w p"
  by (simp add: run_evs_def)

text \<open>A path is recorded with the fingerprint of the content \<open>c\<close>.\<close>

lemma runFileJob_keeps:
  assumes "runFileJob env config job (g, w) = (rej, job', g', w')"
      and "fs w p = Some c"
      and "isFileProcessed (state g) p (md5 env c) \<or>
           (\<not> rej \<and> path (entry job') = p \<and> status job' = Completed)"
  shows "isFileProcessed (state g') p (md5 env c)"
proof -
  from runFileJob_effect [OF assms(1)] obtain evs where
    f: "if \<not> rej \<and> status job' = Completed
        then (\<exists>c e. fs w (path (entry job)) = Some c \<and> hash e = md5 env c \<and>
                g' = g\<lparr>state := (state g)\<lparr>files := (files (state g))(path (entry job) \<mapsto> e)\<rparr>\<rparr> \<and>
                path (entry job) \<in> set (succeeded_inputs evs))
        else g' = g"
    by blast
  have ent: "entry job' = entry job"
    using runFileJob_result [OF assms(1)] by simp
  show ?thesis
  proof (cases "\<not> rej \<and> status job' = Completed")
    case False
    with f assms(3) show ?thesis by auto
  next
    case True
    with f obtain c' e where c': "fs w (path (entry job)) = Some c'" "hash e = md5 env c'"
      and g': "g' = g\<lparr>state := (state g)\<lparr>files := (files (state g))(path (entry job) \<mapsto> e)\<rparr>\<rparr>"
      by auto
    show ?thesis
    proof (cases "path (entry job) = p")
      case True
      with c' assms(2) have "c' = c" by simp
      with c' g' True show ?thesis by (simp add: isFileProcessed_def)
    next
      case False
      with assms(3) ent g' show ?thesis by (auto simp: isFileProcessed_def)
    qed
  qed
qed

lemma runFileBatch_keeps:
  "runFileBatch env config batch (g, w) = (rej, batch', g', w') \<Longrightarrow>
     \<exists>evs. run_evs w evs w' \<and>
       (\<forall>p c. p \<notin> set (written_paths evs) \<and> fs w p = Some c \<and>
              (isFileProcessed (state g) p (md5 env c) \<or>
               (\<not> rej \<and> (\<exists>j \<in> set batch'. path (entry j) = p \<and> status j = Completed)))
            \<longrightarrow> isFileProcessed (state g') p (md5 env c))"
proof (induction batch arbitrary: g w rej batch' g' w')
  case Nil
  then show ?case by (intro exI [of _ "[]"]) simp
next
  case (Cons job rest)
  obtain r1 j1 g1 w1 where a: "runFileJob env config job (g, w) = (r1, j1, g1, w1)"
    by (metis prod_cases4)
  obtain r2 js g2 w2 where b: "runFileBatch env config rest (g1, w1) = (r2, js, g2, w2)"
    by (metis prod_cases4)
  from Cons.prems a b have eq: "rej = (r1 \<or> r2)" "batch' = j1 # js" "g' = g2" "w' = w2"
    by auto
  from runFileJob_effect [OF a] obtain evs1 where e1: "run_evs w evs1 w1"
    by blast
  from Cons.IH [OF b] obtain evs2 where e2: "run_evs w1 evs2 w2"
    and k2: "\<forall>p c. p \<notin> set (written_paths evs2) \<and> fs w1 p = Some c \<and>
              (isFileProcessed (state g1) p (md5 env c) \<or>
               (\<not> r2 \<and> (\<exists>j \<in> set js. path (entry j) = p \<and> status j = Completed)))
            \<longrightarrow> isFileProcessed (state g2) p (md5 env c)"
    by blast
  have "\<forall>p c. p \<notin> set (written_paths (evs1 @ evs2)) \<and> fs w p = Some c \<and>
              (isFileProcessed (state g) p (md5 env c) \<or>
               (\<not> (r1 \<or> r2) \<and> (\<exists>j \<in> set (j1 # js). path (entry j) = p \<and> status j = Completed)))
            \<longrightarrow> isFileProcessed (state g2) p (md5 env c)"
  proof (intro allI impI)
    fix p c
    assume h: "p \<notin> set (written_paths (evs1 @ evs2)) \<and> fs w p = Some c \<and>
              (isFileProcessed (state g) p (md5 env c) \<or>
               (\<not> (r1 \<or> r2) \<and> (\<exists>j \<in> set (j1 # js). path (entry j) = p \<and> status j = Completed)))"
    then have nw: "p \<notin> set (written_paths evs1)" "p \<notin> set (written_paths evs2)"
      and c: "fs w p = Some c"
      by auto
    have c1: "fs w1 p = Some c"
      using run_evs_fs [OF e1 nw(1)] c by simp
    from h consider
        (old) "isFileProcessed (state g) p (md5 env c)"
      | (first) "\<not> r1" "\<not> r2" "path (entry j1) = p" "status j1 = Completed"
      | (later) "\<not> r2" "\<exists>j \<in> set js. path (entry j) = p \<and> status j = Completed"
      by auto
    then show "isFileProcessed (state g2) p (md5 env c)"
    proof cases
      case old
      from runFileJob_keeps [OF a c] old have "isFileProcessed (state g1) p (md5 env c)"
        by blast
      with k2 nw c1 show ?thesis by blast
    next
      case first
      from runFileJob_keeps [OF a c] first have "isFileProcessed (state g1) p (md5 env c)"
        by blast
      with k2 nw c1 show ?thesis by blast
    next
      case later
      with k2 nw c1 show ?thesis by blast
    qed
  qed
  with run_evs_trans [OF e1 e2] eq show ?case
    by blast
qed

lemma runEachBatch_keeps:
  "runEachBatch env config batches (g, w) = (oc, finished, g', w') \<Longrightarrow>
     \<exists>evs. run_evs w evs w' \<and>
       (\<forall>p c. p \<notin> set (written_paths evs) \<and> fs w p = Some c \<and>
              (isFileProcessed (state g) p (md5 env c) \<or>
               (oc = Returned \<and>
                (\<exists>j \<in> set (concat finished). path (entry j) = p \<and> status j = Completed)))
            \<longrightarrow> isFileProcessed (state g') p (md5 env c))"
proof (induction batches arbitrary: g w oc finished g' w')
  case Nil
  then show ?case by (intro exI [of _ "[]"]) auto
next
  case (Cons batch rest)
  obtain rej batch' g1 w1 where rb: "runFileBatch env config batch (g, w) = (rej, batch', g1, w1)"
    by (metis prod_cases4)
  from runFileBatch_keeps [OF rb] obtain evs1 where e1: "run_evs w evs1 w1"
    and k1: "\<forall>p c. p \<notin> set (written_paths evs1) \<and> fs w p = Some c \<and>
              (isFileProcessed (state g) p (md5 env c) \<or>
               (\<not> rej \<and> (\<exists>j \<in> set batch'. path (entry j) = p \<and> status j = Completed)))
            \<longrightarrow> isFileProcessed (state g1) p (md5 env c)"
    by blast
  show ?case
  proof (cases rej)
    case True
    with Cons.prems rb have "oc = Threw" "g' = g1" "w' = w1"
      by auto
    with e1 k1 show ?thesis
      by (intro exI [of _ evs1]) auto
  next
    case False
    obtain st2 w2 where sv:
      "saveProcessedState env (path_join env (outputDir config) (hashFile config)) (state g1, w1)
         = (st2, w2)"
      by (metis surj_pair)
    obtain oc3 fin g3 w3 where re:
      "runEachBatch env config rest (g1\<lparr>state := st2\<rparr>, w2) = (oc3, fin, g3, w3)"
      by (metis prod_cases4)
    from Cons.prems rb sv re False have eq: "oc = oc3" "finished = batch' # fin" "g' = g3" "w' = w3"
      by auto
    note s = saveProcessedState_run [OF sv]
    let ?sv = "[WriteFile (path_join env (outputDir config) (hashFile config)) (JSON_stringify env st2)]"
    from Cons.IH [OF re] obtain evs3 where e3: "run_evs w2 evs3 w3"
      and k3: "\<forall>p c. p \<notin> set (written_paths evs3) \<and> fs w2 p = Some c \<and>
              (isFileProcessed (state (g1\<lparr>state := st2\<rparr>)) p (md5 env c) \<or>
               (oc3 = Returned \<and>
                (\<exists>j \<in> set (concat fin). path (entry j) = p \<and> status j = Completed)))
            \<longrightarrow> isFileProcessed (state g3) p (md5 env c)"
      by blast
    let ?evs = "evs1 @ ?sv @ evs3"
    have e: "run_evs w ?evs w3"
      using run_evs_trans [OF e1 run_evs_trans [OF conjunct2 [OF s] e3]] .
    have "\<forall>p c. p \<notin> set (written_paths ?evs) \<and> fs w p = Some c \<and>
              (isFileProcessed (state g) p (md5 env c) \<or>
               (oc3 = Returned \<and>
                (\<exists>j \<in> set (concat (batch' # fin)). path (entry j) = p \<and> status j = Completed)))
            \<longrightarrow> isFileProcessed (state g3) p (md5 env c)"
    proof (intro allI impI)
      fix p c
      assume h: "p \<notin> set (written_paths ?evs) \<and> fs w p = Some c \<and>
              (isFileProcessed (state g) p (md5 env c) \<or>
               (oc3 = Returned \<and>
                (\<exists>j \<in> set (concat (batch' # fin)). path (entry j) = p \<and> status j = Completed)))"
      then have nw: "p \<notin> set (written_paths evs1)" "p \<notin> set (written_paths ?sv)"
          "p \<notin> set (written_paths evs3)"
        and c: "fs w p = Some c"
        by auto
      have c1: "fs w1 p = Some c"
        using run_evs_fs [OF e1 nw(1)] c by simp
      have c2: "fs w2 p = Some c"
        using run_evs_fs [OF conjunct2 [OF s] nw(2)] c1 by simp
      have st: "isFileProcessed (state (g1\<lparr>state := st2\<rparr>)) p h =  isFileProcessed (state g1) p h" for h
        using s by (simp add: isFileProcessed_def)
      from h consider
          (old) "isFileProcessed (state g) p (md5 env c)"
        | (first) "\<exists>j \<in> set batch'. path (entry j) = p \<and> status j = Completed"
        | (later) "oc3 = Returned" "\<exists>j \<in> set (concat fin). path (entry j) = p \<and> status j = Completed"
        by auto
      then show "isFileProcessed (state g3) p (md5 env c)"
      proof cases
        case old
        with k1 nw c have "isFileProcessed (state g1) p (md5 env c)" by blast
        with k3 nw c2 st show ?thesis by blast
      next
        case first
        with k1 nw c False have "isFileProcessed (state g1) p (md5 env c)" by blast
        with k3 nw c2 st show ?thesis by blast
      next
        case later
        with k3 nw c2 show ?thesis by blast
      qed
    qed
    with e eq show ?thesis
      by (intro exI [of _ ?evs]) simp
  qed
qed

lemma parseUrlLine_parses:
  "parseUrlLine env line = Some u \<Longrightarrow> URL_parse env (entry_url u) \<noteq> None"
  unfolding parseUrlLine_def Let_def
  by (cases "startsWith (trim line) ''#''"; cases "split_ws (trim line)";
      cases "URL_parse env (hd (split_ws (trim line)))") auto

lemma parseUrlFile_parses:
  assumes "u \<in> set (parseUrlFile env w f)"
  shows "URL_parse env (entry_url u) \<noteq> None"
proof (cases "fs w f")
  case None
  with assms show ?thesis by (simp add: parseUrlFile_def)
next
  case (Some content)
  with assms have "u \<in> set (List.map_filter (parseUrlLine env) (nonBlankLines content))"
    by (simp add: parseUrlFile_def)
  then obtain line where "parseUrlLine env line = Some u"
    unfolding List.map_filter_def by auto
  then show ?thesis by (rule parseUrlLine_parses)
qed

lemma parseUrlFile_cong: "fs w' f = fs w f \<Longrightarrow> parseUrlFile env w' f = parseUrlFile env w f"
  by (simp add: parseUrlFile_def)

lemma detectUrlsInTextFile_cong:
  "fs w' f = fs w f \<Longrightarrow> detectUrlsInTextFile env w' f = detectUrlsInTextFile env w f"
  by (simp add: detectUrlsInTextFile_def)

lemma calculateFileHash_cong:
  "fs w' f = fs w f \<Longrightarrow> calculateFileHash env w' f = calculateFileHash env w f"
  by (simp add: calculateFileHash_def)

lemma filter_same_length:
  "length (filter P xs) = length (filter Q xs) \<Longrightarrow> (\<And>x. P x \<Longrightarrow> Q x) \<Longrightarrow>
     x \<in> set xs \<Longrightarrow> Q x \<Longrightarrow> P x"
proof (induction xs)
  case Nil
  then show ?case by simp
next
  case (Cons a xs)
  have "filter P xs = filter P (filter Q xs)"
    using Cons.prems(2) by (induction xs) auto
  then have le: "length (filter P xs) \<le> length (filter Q xs)"
    by (metis length_filter_le)
  show ?case
  proof (cases "P a")
    case True
    with Cons.prems(2) have "Q a" by blast
    with True Cons.prems(1) have "length (filter P xs) = length (filter Q xs)" by simp
    with Cons.IH Cons.prems True show ?thesis by auto
  next
    case False
    show ?thesis
    proof (cases "Q a")
      case True
      with False Cons.prems(1) have "length (filter P xs) = Suc (length (filter Q xs))" by simp
      with le show ?thesis by simp
    next
      case False
      with \<open>\<not> P a\<close> Cons.prems(1) have "length (filter P xs) = length (filter Q xs)" by simp
      with Cons.IH Cons.prems False show ?thesis by auto
    qed
  qed
qed

lemma isHttpUrlLine_parses: "isHttpUrlLine env line \<Longrightarrow> parseUrlLine env line \<noteq> None"
  unfolding isHttpUrlLine_def parseUrlLine_def Let_def
  by (cases "startsWith (trim line) ''#''"; cases "split_ws (trim line)";
      cases "URL_parse env (hd (split_ws (trim line)))") auto

lemma isHttpUrlLine_not_comment: "isHttpUrlLine env line \<Longrightarrow> \<not> startsWith (trim line) ''#''"
  unfolding isHttpUrlLine_def Let_def
  by (cases "startsWith (trim line) ''#''") auto

lemma detect_parse_nonempty:
  assumes "detectUrlsInTextFile env w f"
  shows "parseUrlFile env w f \<noteq> []"
proof -
  from assms obtain content where c: "fs w f = Some content"
    by (cases "fs w f") (auto simp: detectUrlsInTextFile_def)
  let ?lines = "nonBlankLines content"
  from assms c have d: "?lines \<noteq> [] \<and>
      0 < length (filter (\<lambda>l. \<not> startsWith (trim l) ''#'') ?lines) \<and>
      length (filter (isHttpUrlLine env) ?lines) =
      length (filter (\<lambda>l. \<not> startsWith (trim l) ''#'') ?lines)"
    unfolding detectUrlsInTextFile_def Let_def
    by (cases "?lines = []") auto
  then have "filter (\<lambda>l. \<not> startsWith (trim l) ''#'') ?lines \<noteq> []"
    by auto
  then obtain l where l: "l \<in> set ?lines" "\<not> startsWith (trim l) ''#''"
    by (auto simp: filter_empty_conv)
  have "isHttpUrlLine env l"
    using filter_same_length [of "isHttpUrlLine env" ?lines "\<lambda>l. \<not> startsWith (trim l) ''#''" l]
      d l isHttpUrlLine_not_comment by blast
  then have "parseUrlLine env l \<noteq> None"
    by (rule isHttpUrlLine_parses)
  with l(1) have "filter (\<lambda>x. parseUrlLine env x \<noteq> None) ?lines \<noteq> []"
    by (auto simp: filter_empty_conv)
  then have "List.map_filter (parseUrlLine env) ?lines \<noteq> []"
    by (simp add: List.map_filter_def)
  with c show ?thesis
    by (simp add: parseUrlFile_def)
qed

text \<open>
  A path that is not a URL and that the run does not write keeps its record through the
  processing of URLs, whose keys are URLs.
\<close>

lemma processUrlEntries_keeps:
  assumes "processUrlEntries env config urls (g, w) = (g', w')"
      and "\<forall>u \<in> set urls. URL_parse env (entry_url u) \<noteq> None"
      and "URL_parse env p = None"
  shows "files (state g') p = files (state g) p"
proof -
  from processUrlEntries_effect [OF assms(1)] obtain evs where
    f: "\<forall>k. files (state g') k \<noteq> files (state g) k \<longrightarrow>
          (\<exists>e. files (state g') k = Some e \<and> k \<in> entry_url ` set urls \<and>
               hash e = md5 env k \<and> extracted_into (outputPath e) evs)"
    by blast
  show ?thesis
  proof (rule ccontr)
    assume "files (state g') p \<noteq> files (state g) p"
    with f have "p \<in> entry_url ` set urls" by blast
    with assms(2) assms(3) show False by auto
  qed
qed

lemma processUrlFile_keeps:
  assumes run: "processUrlFile env config f (g, w) = (oc, g', w')"
  shows "\<exists>evs. run_evs w evs w' \<and> isShuttingDown g' = isShuttingDown g \<and>
           (\<forall>p c. URL_parse env p = None \<and> p \<notin> set (written_paths evs) \<and> fs w p = Some c \<and>
                  (isFileProcessed (state g) p (md5 env c) \<or>
                   (p = f \<and> oc = Returned \<and> parseUrlFile env w f \<noteq> []))
              \<longrightarrow> isFileProcessed (state g') p (md5 env c))"
proof (cases "parseUrlFile env w f = []")
  case True
  with run have "g' = g" "w' = w" by (auto simp: processUrlFile_def)
  with True show ?thesis by (intro exI [of _ "[]"]) simp
next
  case False
  obtain g1 w1 where lp: "processUrlEntries env config (parseUrlFile env w f) (g, w) = (g1, w1)"
    by (cases "processUrlEntries env config (parseUrlFile env w f) (g, w)")
  from processUrlEntries_effect [OF lp] obtain evs where e: "run_evs w evs w1"
    and sd: "isShuttingDown g1 = isShuttingDown g"
    by blast
  have keep: "URL_parse env p = None \<Longrightarrow> files (state g1) p = files (state g) p" for p
    using processUrlEntries_keeps [OF lp] parseUrlFile_parses by blast
  show ?thesis
  proof (cases "calculateFileHash env w1 f")
    case None
    with run False lp have eq: "oc = Threw" "g' = g1" "w' = w1"
      by (auto simp: processUrlFile_def Let_def)
    with e sd keep show ?thesis
      by (intro exI [of _ evs]) (auto simp: isFileProcessed_def)
  next
    case (Some h)
    with run False lp have
      g': "g' = g1\<lparr>state := markFileProcessed env w1 (state g1) f h ''url-list-processed'' 0\<rparr>"
      and w': "w' = w1" and oc: "oc = Returned"
      by (auto simp: processUrlFile_def Let_def)
    have "\<forall>p c. URL_parse env p = None \<and> p \<notin> set (written_paths evs) \<and> fs w p = Some c \<and>
                  (isFileProcessed (state g) p (md5 env c) \<or>
                   (p = f \<and> oc = Returned \<and> parseUrlFile env w f \<noteq> []))
              \<longrightarrow> isFileProcessed (state g') p (md5 env c)"
    proof (intro allI impI)
      fix p c
      assume a: "URL_parse env p = None \<and> p \<notin> set (written_paths evs) \<and> fs w p = Some c \<and>
                  (isFileProcessed (state g) p (md5 env c) \<or>
                   (p = f \<and> oc = Returned \<and> parseUrlFile env w f \<noteq> []))"
      then have c1: "fs w1 p = Some c"
        using run_evs_fs [OF e] by simp
      show "isFileProcessed (state g') p (md5 env c)"
      proof (cases "p = f")
        case True
        with c1 Some have "h = md5 env c" by (simp add: calculateFileHash_def)
        with g' True show ?thesis
          by (simp add: markFileProcessed_def isFileProcessed_def)
      next
        case False
        with a keep [of p] g' show ?thesis
          by (auto simp: markFileProcessed_def isFileProcessed_def)
      qed
    qed
    with e sd g' w' show ?thesis
      by (intro exI [of _ evs]) simp
  qed
qed

lemma processUrlFiles_keeps:
  "processUrlFiles env config urlFiles (g, w) = (oc, g', w') \<Longrightarrow>
     \<exists>evs. run_evs w evs w' \<and> isShuttingDown g' = isShuttingDown g \<and>
       (\<forall>p c. URL_parse env p = None \<and> p \<notin> set (written_paths evs) \<and> fs w p = Some c \<and>
              (isFileProcessed (state g) p (md5 env c) \<or>
               (oc = Returned \<and> \<not> isShuttingDown g \<and> p \<in> set urlFiles \<and>
                parseUrlFile env w p \<noteq> []))
          \<longrightarrow> isFileProcessed (state g') p (md5 env c))"
proof (induction urlFiles arbitrary: g w oc g' w')
  case Nil
  then show ?case by (intro exI [of _ "[]"]) auto
next
  case (Cons f rest)
  show ?case
  proof (cases "isShuttingDown g")
    case True
    with Cons.prems have "g' = g" "w' = w" by auto
    with True show ?thesis by (intro exI [of _ "[]"]) simp
  next
    case False
    note ns = False
    show ?thesis
    proof (cases "calculateFileHash env w f")
      case None
      with Cons.prems ns have "oc = Threw" "g' = g" "w' = w" by auto
      then show ?thesis by (intro exI [of _ "[]"]) simp
    next
      case (Some h)
      then obtain cf where cf: "fs w f = Some cf" "h = md5 env cf"
        by (auto simp: calculateFileHash_def)
      show ?thesis
      proof (cases "isFileProcessed (state g) f h")
        case True
        with Cons.prems ns Some have rec: "processUrlFiles env config rest (g, w) = (oc, g', w')"
          by simp
        from Cons.IH [OF rec] obtain evs where e: "run_evs w evs w'"
          and sd: "isShuttingDown g' = isShuttingDown g"
          and k: "\<forall>p c. URL_parse env p = None \<and> p \<notin> set (written_paths evs) \<and> fs w p = Some c \<and>
              (isFileProcessed (state g) p (md5 env c) \<or>
               (oc = Returned \<and> \<not> isShuttingDown g \<and> p \<in> set rest \<and>
                parseUrlFile env w p \<noteq> []))
          \<longrightarrow> isFileProcessed (state g') p (md5 env c)"
          by blast
        have "\<forall>p c. URL_parse env p = None \<and> p \<notin> set (written_paths evs) \<and> fs w p = Some c \<and>
              (isFileProcessed (state g) p (md5 env c) \<or>
               (oc = Returned \<and> \<not> isShuttingDown g \<and> p \<in> set (f # rest) \<and>
                parseUrlFile env w p \<noteq> []))
          \<longrightarrow> isFileProcessed (state g') p (md5 env c)"
        proof (intro allI impI)
          fix p c
          assume a: "URL_parse env p = None \<and> p \<notin> set (written_paths evs) \<and> fs w p = Some c \<and>
              (isFileProcessed (state g) p (md5 env c) \<or>
               (oc = Returned \<and> \<not> isShuttingDown g \<and> p \<in> set (f # rest) \<and>
                parseUrlFile env w p \<noteq> []))"
          show "isFileProcessed (state g') p (md5 env c)"
          proof (cases "p = f")
            case True
            with a cf have "c = cf" by simp
            with True \<open>isFileProcessed (state g) f h\<close> cf k a show ?thesis by blast
          next
            case False
            with a k show ?thesis by auto
          qed
        qed
        with e sd show ?thesis by blast
      next
        case False
        obtain oc1 g1 w1 where pf: "processUrlFile env config f (g, w) = (oc1, g1, w1)"
          by (metis prod_cases3)
        from processUrlFile_keeps [OF pf] obtain evs1 where e1: "run_evs w evs1 w1"
          and sd1: "isShuttingDown g1 = isShuttingDown g"
          and k1: "\<forall>p c. URL_parse env p = None \<and> p \<notin> set (written_paths evs1) \<and> fs w p = Some c \<and>
                  (isFileProcessed (state g) p (md5 env c) \<or>
                   (p = f \<and> oc1 = Returned \<and> parseUrlFile env w f \<noteq> []))
              \<longrightarrow> isFileProcessed (state g1) p (md5 env c)"
          by blast
        show ?thesis
        proof (cases oc1)
          case Threw
          with Cons.prems ns Some False pf have "oc = Threw" "g' = g1" "w' = w1"
            by auto
          with e1 sd1 k1 show ?thesis
            by (intro exI [of _ evs1]) auto
        next
          case Returned
          with Cons.prems ns Some False pf have
            rec: "processUrlFiles env config rest (g1, w1) = (oc, g', w')"
            by simp
          from Cons.IH [OF rec] obtain evs2 where e2: "run_evs w1 evs2 w'"
            and sd2: "isShuttingDown g' = isShuttingDown g1"
            and k2: "\<forall>p c. URL_parse env p = None \<and> p \<notin> set (written_paths evs2) \<and>
                fs w1 p = Some c \<and>
                (isFileProcessed (state g1) p (md5 env c) \<or>
                 (oc = Returned \<and> \<not> isShuttingDown g1 \<and> p \<in> set rest \<and>
                  parseUrlFile env w1 p \<noteq> []))
              \<longrightarrow> isFileProcessed (state g') p (md5 env c)"
            by blast
          have "\<forall>p c. URL_parse env p = None \<and> p \<notin> set (written_paths (evs1 @ evs2)) \<and>
                fs w p = Some c \<and>
                (isFileProcessed (state g) p (md5 env c) \<or>
                 (oc = Returned \<and> \<not> isShuttingDown g \<and> p \<in> set (f # rest) \<and>
                  parseUrlFile env w p \<noteq> []))
              \<longrightarrow> isFileProcessed (state g') p (md5 env c)"
          proof (intro allI impI)
            fix p c
            assume a: "URL_parse env p = None \<and> p \<notin> set (written_paths (evs1 @ evs2)) \<and>
                fs w p = Some c \<and>
                (isFileProcessed (state g) p (md5 env c) \<or>
                 (oc = Returned \<and> \<not> isShuttingDown g \<and> p \<in> set (f # rest) \<and>
                  parseUrlFile env w p \<noteq> []))"
            then have nw: "p \<notin> set (written_paths evs1)" "p \<notin> set (written_paths evs2)"
              and c: "fs w p = Some c" and nu: "URL_parse env p = None"
              by auto
            have c1: "fs w1 p = Some c"
              using run_evs_fs [OF e1 nw(1)] c by simp
            have pc: "parseUrlFile env w1 p = parseUrlFile env w p"
              using c c1 by (simp add: parseUrlFile_cong)
            from a consider
                (old) "isFileProcessed (state g) p (md5 env c)"
              | (this) "p = f" "parseUrlFile env w p \<noteq> []"
              | (later) "oc = Returned" "p \<in> set rest" "parseUrlFile env w p \<noteq> []"
              by auto
            then show "isFileProcessed (state g') p (md5 env c)"
            proof cases
              case old
              with k1 nu nw c have "isFileProcessed (state g1) p (md5 env c)" by blast
              with k2 nu nw c1 show ?thesis by blast
            next
              case this
              with k1 nu nw c Returned have "isFileProcessed (state g1) p (md5 env c)" by blast
              with k2 nu nw c1 show ?thesis by blast
            next
              case later
              with k2 nu nw c1 pc sd1 ns show ?thesis by auto
            qed
          qed
          with run_evs_trans [OF e1 e2] sd1 sd2 show ?thesis
            by (intro exI [of _ "evs1 @ evs2"]) simp
        qed
      qed
    qed
  qed
qed

lemma findUrlFiles_cong:
  assumes "\<forall>item \<in> set items. fs w' (path_join env (inputDir config) (dirent_name item)) =
             fs w (path_join env (inputDir config) (dirent_name item))"
  shows "findUrlFiles env config w' items = findUrlFiles env config w items"
proof -
  have "filter (\<lambda>item. dirent_isFile item \<and> endsWith (dirent_name item) ''.txt'' \<and>
                    \<not> startsWith (dirent_name item) ''.'' \<and>
                    detectUrlsInTextFile env w' (path_join env (inputDir config) (dirent_name item)))
          items =
        filter (\<lambda>item. dirent_isFile item \<and> endsWith (dirent_name item) ''.txt'' \<and>
                    \<not> startsWith (dirent_name item) ''.'' \<and>
                    detectUrlsInTextFile env w (path_join env (inputDir config) (dirent_name item)))
          items"
    using assms by (intro filter_cong refl) (simp add: detectUrlsInTextFile_def)
  then show ?thesis
    by (simp add: findUrlFiles_def)
qed

lemma findUrlFiles_member:
  assumes "f \<in> set (findUrlFiles env config w items)"
  shows "detectUrlsInTextFile env w f \<and>
         f \<in> (\<lambda>item. path_join env (inputDir config) (dirent_name item)) ` set items"
  using assms by (auto simp: findUrlFiles_def)

lemma detect_exists: "detectUrlsInTextFile env w f \<Longrightarrow> \<exists>c. fs w f = Some c"
  by (cases "fs w f") (auto simp: detectUrlsInTextFile_def)

lemma processUrlFiles_all_recorded:
  "\<forall>f \<in> set urlFiles. \<exists>c. fs w f = Some c \<and> isFileProcessed (state g) f (md5 env c) \<Longrightarrow>
     processUrlFiles env config urlFiles (g, w) = (Returned, g, w)"
  by (induction urlFiles) (auto simp: calculateFileHash_def)

lemma selectNewFiles_all_recorded:
  "skipExisting config \<Longrightarrow>
   \<forall>e \<in> set entries.
      (endsWith (path e) ''.txt'' \<and> detectUrlsInTextFile env w (path e)) \<or>
      (\<exists>c. fs w (path e) = Some c \<and> isFileProcessed st (path e) (md5 env c)) \<Longrightarrow>
   selectNewFiles env config st w entries = Some []"
  by (induction entries) (auto simp: calculateFileHash_def)

lemma selectNewFiles_cases:
  "selectNewFiles env config st w entries = Some newFiles \<Longrightarrow> e \<in> set entries \<Longrightarrow>
     (endsWith (path e) ''.txt'' \<and> detectUrlsInTextFile env w (path e)) \<or>
     (\<exists>c. fs w (path e) = Some c \<and>
          (isFileProcessed st (path e) (md5 env c) \<or> e \<in> set newFiles))"
proof (induction entries arbitrary: newFiles)
  case Nil
  then show ?case by simp
next
  case (Cons a as)
  show ?case
  proof (cases "endsWith (path a) ''.txt'' \<and> detectUrlsInTextFile env w (path a)")
    case True
    with Cons show ?thesis by auto
  next
    case False
    note nl = False
    show ?thesis
    proof (cases "fs w (path a)")
      case None
      with Cons.prems nl show ?thesis by (auto simp: calculateFileHash_def)
    next
      case (Some c)
      show ?thesis
      proof (cases "skipExisting config \<and> isFileProcessed st (path a) (md5 env c)")
        case True
        with Cons nl Some show ?thesis by (auto simp: calculateFileHash_def)
      next
        case False
        with Cons.prems nl Some obtain rest where
          r: "selectNewFiles env config st w as = Some rest" "newFiles = a # rest"
          by (auto simp: calculateFileHash_def)
        show ?thesis
        proof (cases "e = a")
          case True
          with Some r show ?thesis by auto
        next
          case False
          with Cons.prems(2) have "e \<in> set as" by simp
          from Cons.IH [OF r(1) this] r(2) show ?thesis by auto
        qed
      qed
    qed
  qed
qed

lemma map_entry_createJobs: "map entry (createJobs w es) = es"
proof -
  have "map entry (createJobs w es) = map fst (zip es [0..<length es])"
    by (simp add: createJobs_def case_prod_unfold comp_def)
  then show ?thesis by simp
qed

lemma processUrls_keeps:
  assumes "processUrls env config items (g, w) = (oc, g', w')"
  shows "\<exists>evs. run_evs w evs w' \<and> isShuttingDown g' = isShuttingDown g \<and>
       (\<forall>p c. URL_parse env p = None \<and> p \<notin> set (written_paths evs) \<and> fs w p = Some c \<and>
              (isFileProcessed (state g) p (md5 env c) \<or>
               (oc = Returned \<and> \<not> isShuttingDown g \<and> fetchUrls config \<and>
                p \<in> set (findUrlFiles env config w items)))
          \<longrightarrow> isFileProcessed (state g') p (md5 env c))"
proof (cases "fetchUrls config \<and> findUrlFiles env config w items \<noteq> []")
  case False
  with assms have "g' = g" "w' = w"
    by (auto simp: processUrls_def Let_def split: if_splits)
  with False show ?thesis
    by (intro exI [of _ "[]"]) auto
next
  case True
  with assms have "processUrlFiles env config (findUrlFiles env config w items) (g, w) = (oc, g', w')"
    by (simp add: processUrls_def Let_def)
  from processUrlFiles_keeps [OF this] obtain evs where e: "run_evs w evs w'"
    and sd: "isShuttingDown g' = isShuttingDown g"
    and k: "\<forall>p c. URL_parse env p = None \<and> p \<notin> set (written_paths evs) \<and> fs w p = Some c \<and>
              (isFileProcessed (state g) p (md5 env c) \<or>
               (oc = Returned \<and> \<not> isShuttingDown g \<and> p \<in> set (findUrlFiles env config w items) \<and>
                parseUrlFile env w p \<noteq> []))
          \<longrightarrow> isFileProcessed (state g') p (md5 env c)"
    by blast
  have "parseUrlFile env w p \<noteq> []" if "p \<in> set (findUrlFiles env config w items)" for p
    using findUrlFiles_member [OF that] detect_parse_nonempty by blast
  with k have "\<forall>p c. URL_parse env p = None \<and> p \<notin> set (written_paths evs) \<and> fs w p = Some c \<and>
              (isFileProcessed (state g) p (md5 env c) \<or>
               (oc = Returned \<and> \<not> isShuttingDown g \<and> fetchUrls config \<and>
                p \<in> set (findUrlFiles env config w items)))
          \<longrightarrow> isFileProcessed (state g') p (md5 env c)"
    by blast
  with e sd show ?thesis by blast
qed

lemma processFiles_keeps:
  assumes run: "processFiles env config entries (g, w) = Some (Returned, finished, g', w')"
      and c1: "1 \<le> concurrentJobs config" and ns: "\<not> isShuttingDown g"
      and allc: "\<forall>j \<in> set (concat finished). status j = Completed"
  shows "\<exists>evs newFiles. run_evs w evs w' \<and>
           selectNewFiles env config (state g) w entries = Some newFiles \<and>
           (\<forall>p c. p \<notin> set (written_paths evs) \<and> fs w p = Some c \<and>
                  (isFileProcessed (state g) p (md5 env c) \<or> p \<in> path ` set newFiles)
              \<longrightarrow> isFileProcessed (state g') p (md5 env c))"
proof (cases "selectNewFiles env config (state g) w entries")
  case None
  with run show ?thesis by (simp add: processFiles_def)
next
  case (Some newFiles)
  show ?thesis
  proof (cases "newFiles = []")
    case True
    with run Some have "g' = g" "w' = w" by (auto simp: processFiles_def)
    with Some True show ?thesis
      by (intro exI [of _ "[]"] exI [of _ "[]"]) simp
  next
    case False
    let ?jobs = "createJobs w newFiles"
    let ?n = "nat (concurrentJobs config)"
    from run Some False have
      fb: "fileBatchesFrom env config ?jobs 0 [] (g, w) = Some (Returned, finished, g', w')"
      by (simp add: processFiles_def)
    from fileBatches_refine [OF c1 ns, of 0 env ?jobs "[]" w] fb
    have re: "runEachBatch env config (chunks ?n ?jobs) (g, w) = (Returned, finished, g', w')"
      by (auto split: prod.splits)
    from runEachBatch_returned [OF re] have
      "map (map entry) finished = map (map entry) (chunks ?n ?jobs)"
      by blast
    then have "concat (map (map entry) finished) = concat (map (map entry) (chunks ?n ?jobs))"
      by simp
    then have "map entry (concat finished) = map entry (concat (chunks ?n ?jobs))"
      by (simp add: map_concat)
    also have "\<dots> = map entry ?jobs"
      using c1 by (simp add: concat_chunks)
    also have "\<dots> = newFiles"
      by (rule map_entry_createJobs)
    finally have ent: "map entry (concat finished) = newFiles" .
    from runEachBatch_keeps [OF re] obtain evs where e: "run_evs w evs w'"
      and k: "\<forall>p c. p \<notin> set (written_paths evs) \<and> fs w p = Some c \<and>
              (isFileProcessed (state g) p (md5 env c) \<or>
               (Returned = Returned \<and>
                (\<exists>j \<in> set (concat finished). path (entry j) = p \<and> status j = Completed)))
            \<longrightarrow> isFileProcessed (state g') p (md5 env c)"
      by blast
    have "\<exists>j \<in> set (concat finished). path (entry j) = p \<and> status j = Completed"
      if "p \<in> path ` set newFiles" for p
    proof -
      from that ent have "p \<in> path ` set (map entry (concat finished))" by simp
      then obtain j where "j \<in> set (concat finished)" "path (entry j) = p" by auto
      with allc show ?thesis by blast
    qed
    with k have "\<forall>p c. p \<notin> set (written_paths evs) \<and> fs w p = Some c \<and>
                  (isFileProcessed (state g) p (md5 env c) \<or> p \<in> path ` set newFiles)
              \<longrightarrow> isFileProcessed (state g') p (md5 env c)"
      by blast
    with e Some show ?thesis by blast
  qed
qed

section \<open>A second cycle on an unchanged input tree (C8)\<close>

lemma demo_cycle_result:
  "fst demo_cycle_urls = Returned \<and>
   (case demo_cycle_files of None \<Rightarrow> False
    | Some (oc, fin, g, w) \<Rightarrow>
        oc = Returned \<and> list_all (\<lambda>j. status j = Completed) (concat fin) \<and>
        list_all (\<lambda>p. p \<notin> set (written_paths (events_since demo_world w)) \<and>
                       URL_parse demo_env_ok p = None)
          (map path demo_tree @
           map (\<lambda>item. path_join demo_env_ok (inputDir demo_offline) (dirent_name item))
             demo_items))"
  by code_simp

text \<open>
  C8, as the code has it. Take a cycle that returned from both of its halves, in which
  every job reached completed, with \<^verbatim>\<open>skipExisting\<close> on, a concurrency limit of at least 1
  and no shutdown requested; and let the input tree be unchanged: the cycle wrote to no
  input path (outputs, quarantine copies, fetched pages and the ledger lie elsewhere),
  and no input path is itself a URL. Then a second cycle over the same listing does
  nothing at all: it returns the ledger and the world, trace included, as the first cycle
  left them, so it makes no gateway call.
\<close>

theorem unchanged_tree_second_cycle_idle:
  assumes urls1: "processUrls env config items (g, w) = (Returned, g1, w1)"
      and files1: "processFiles env config entries (g1, w1) = Some (Returned, finished, g2, w2)"
      and completed: "\<forall>j \<in> set (concat finished). status j = Completed"
      and skip: "skipExisting config" and c1: "1 \<le> concurrentJobs config"
      and ns: "\<not> isShuttingDown g"
      and tree: "\<forall>p \<in> input_paths env config items entries.
                   p \<notin> set (written_paths (events_since w w2)) \<and> URL_parse env p = None"
  shows "runCycle env config items entries (g, w) = Some (g2, w2) \<and>
         runCycle env config items entries (g2, w2) = Some (g2, w2) \<and>
         spawn_results
           (events_since w2 (snd (the (runCycle env config items entries (g2, w2))))) = []"
proof (intro conjI)
  show "runCycle env config items entries (g, w) = Some (g2, w2)"
    using urls1 files1 by (simp add: runCycle_def)
next
  from processUrls_keeps [OF urls1] obtain evsU where eU: "run_evs w evsU w1"
    and sd1: "isShuttingDown g1 = isShuttingDown g"
    and kU: "\<forall>p c. URL_parse env p = None \<and> p \<notin> set (written_paths evsU) \<and> fs w p = Some c \<and>
              (isFileProcessed (state g) p (md5 env c) \<or>
               (Returned = Returned \<and> \<not> isShuttingDown g \<and> fetchUrls config \<and>
                p \<in> set (findUrlFiles env config w items)))
          \<longrightarrow> isFileProcessed (state g1) p (md5 env c)"
    by blast
  have ns1: "\<not> isShuttingDown g1" using sd1 ns by simp
  from processFiles_keeps [OF files1 c1 ns1 completed] obtain evsF newFiles where
    eF: "run_evs w1 evsF w2"
    and sel: "selectNewFiles env config (state g1) w1 entries = Some newFiles"
    and kF: "\<forall>p c. p \<notin> set (written_paths evsF) \<and> fs w1 p = Some c \<and>
                  (isFileProcessed (state g1) p (md5 env c) \<or> p \<in> path ` set newFiles)
              \<longrightarrow> isFileProcessed (state g2) p (md5 env c)"
    by blast
  have ev: "events_since w w2 = evsU @ evsF"
    using run_evs_trans [OF eU eF] by simp
  have frozen: "p \<notin> set (written_paths evsU) \<and> p \<notin> set (written_paths evsF) \<and>
                URL_parse env p = None \<and> fs w1 p = fs w p \<and> fs w2 p = fs w p"
    if "p \<in> input_paths env config items entries" for p
  proof -
    from tree that ev have a: "p \<notin> set (written_paths evsU)" "p \<notin> set (written_paths evsF)"
      "URL_parse env p = None"
      by auto
    have "fs w1 p = fs w p" using run_evs_fs [OF eU a(1)] .
    moreover have "fs w2 p = fs w1 p" using run_evs_fs [OF eF a(2)] .
    ultimately show ?thesis using a by simp
  qed
  have item_path: "path_join env (inputDir config) (dirent_name item)
                     \<in> input_paths env config items entries" if "item \<in> set items" for item
    using that by (auto simp: input_paths_def)
  have entry_path: "path e \<in> input_paths env config items entries" if "e \<in> set entries" for e
    using that by (auto simp: input_paths_def)
  have same_lists: "findUrlFiles env config w2 items = findUrlFiles env config w items"
    by (rule findUrlFiles_cong) (use frozen item_path in auto)
  have lists_recorded: "\<exists>c. fs w2 f = Some c \<and> isFileProcessed (state g2) f (md5 env c)"
    if fu: "fetchUrls config" and f: "f \<in> set (findUrlFiles env config w items)" for f
  proof -
    from findUrlFiles_member [OF f] have d: "detectUrlsInTextFile env w f"
      and fp: "f \<in> input_paths env config items entries"
      using item_path by auto
    from detect_exists [OF d] obtain c where c: "fs w f = Some c" by blast
    note fr = frozen [OF fp]
    from kU fr c ns fu f have "isFileProcessed (state g1) f (md5 env c)" by blast
    with kF fr c have "isFileProcessed (state g2) f (md5 env c)" by auto
    with fr c show ?thesis by auto
  qed
  have urls2: "processUrls env config items (g2, w2) = (Returned, g2, w2)"
  proof (cases "fetchUrls config \<and> findUrlFiles env config w items \<noteq> []")
    case False
    then show ?thesis
      by (auto simp: processUrls_def Let_def same_lists)
  next
    case True
    have "processUrlFiles env config (findUrlFiles env config w items) (g2, w2) = (Returned, g2, w2)"
      by (rule processUrlFiles_all_recorded) (use True lists_recorded in blast)
    with True show ?thesis
      by (simp add: processUrls_def Let_def same_lists)
  qed
  have entries_recorded:
    "(endsWith (path e) ''.txt'' \<and> detectUrlsInTextFile env w2 (path e)) \<or>
     (\<exists>c. fs w2 (path e) = Some c \<and> isFileProcessed (state g2) (path e) (md5 env c))"
    if e: "e \<in> set entries" for e
  proof -
    note fr = frozen [OF entry_path [OF e]]
    have dc: "detectUrlsInTextFile env w2 (path e) = detectUrlsInTextFile env w1 (path e)"
      using fr by (simp add: detectUrlsInTextFile_def)
    from selectNewFiles_cases [OF sel e] show ?thesis
    proof (elim disjE exE conjE)
      assume "endsWith (path e) ''.txt''" "detectUrlsInTextFile env w1 (path e)"
      with dc show ?thesis by simp
    next
      fix c assume c: "fs w1 (path e) = Some c"
        and "isFileProcessed (state g1) (path e) (md5 env c)"
      with kF fr have "isFileProcessed (state g2) (path e) (md5 env c)" by blast
      with c fr show ?thesis by auto
    next
      fix c assume c: "fs w1 (path e) = Some c" and "e \<in> set newFiles"
      then have "path e \<in> path ` set newFiles" by simp
      with kF fr c have "isFileProcessed (state g2) (path e) (md5 env c)" by blast
      with c fr show ?thesis by auto
    qed
  qed
  have "selectNewFiles env config (state g2) w2 entries = Some []"
    by (rule selectNewFiles_all_recorded [OF skip]) (use entries_recorded in blast)
  then have files2: "processFiles env config entries (g2, w2) = Some (Returned, [], g2, w2)"
    by (simp add: processFiles_def)
  show again: "runCycle env config items entries (g2, w2) = Some (g2, w2)"
    using urls2 files2 by (simp add: runCycle_def)
  show "spawn_results
          (events_since w2 (snd (the (runCycle env config items entries (g2, w2))))) = []"
    by (simp add: again events_since_def)
qed

theorem unchanged_tree_second_cycle_idle_witness:
  "skipExisting demo_offline \<and> 1 \<le> concurrentJobs demo_offline \<and>
   \<not> isShuttingDown demo_globals \<and>
   (\<exists>g1 w1 fin g2 w2.
      processUrls demo_env_ok demo_offline demo_items (demo_globals, demo_world) =
        (Returned, g1, w1) \<and>
      processFiles demo_env_ok demo_offline demo_tree (g1, w1) = Some (Returned, fin, g2, w2) \<and>
      list_all (\<lambda>j. status j = Completed) (concat fin) \<and>
      list_all (\<lambda>p. p \<notin> set (written_paths (events_since demo_world w2)) \<and>
                     URL_parse demo_env_ok p = None)
        (map path demo_tree @
         map (\<lambda>item. path_join demo_env_ok (inputDir demo_offline) (dirent_name item))
           demo_items) \<and>
      runCycle demo_env_ok demo_offline demo_items demo_tree (demo_globals, demo_world) =
        Some (g2, w2) \<and>
      runCycle demo_env_ok demo_offline demo_items demo_tree (g2, w2) = Some (g2, w2))"
proof -
  have skip: "skipExisting demo_offline"
    by (simp add: demo_offline_def demo_config_def)
  have c1: "1 \<le> concurrentJobs demo_offline"
    by (simp add: demo_offline_def demo_config_def)
  have ns: "\<not> isShuttingDown demo_globals"
    by (simp add: demo_globals_def)
  have r: "fst demo_cycle_urls = Returned"
    using demo_cycle_result by (rule conjunct1)
  define g1 where "g1 = fst (snd demo_cycle_urls)"
  define w1 where "w1 = snd (snd demo_cycle_urls)"
  have u: "demo_cycle_urls = (Returned, g1, w1)"
    unfolding g1_def w1_def r [symmetric] by simp
  then have u': "processUrls demo_env_ok demo_offline demo_items (demo_globals, demo_world) =
                   (Returned, g1, w1)"
    by (simp add: demo_cycle_urls_def)
  obtain fin g2 w2 where f: "demo_cycle_files = Some (Returned, fin, g2, w2)"
    and allc: "list_all (\<lambda>j. status j = Completed) (concat fin)"
    and tree: "list_all (\<lambda>p. p \<notin> set (written_paths (events_since demo_world w2)) \<and>
                              URL_parse demo_env_ok p = None)
                 (map path demo_tree @
                  map (\<lambda>item. path_join demo_env_ok (inputDir demo_offline) (dirent_name item))
                    demo_items)"
    using conjunct2 [OF demo_cycle_result] by (auto split: option.splits)
  from f have f': "processFiles demo_env_ok demo_offline demo_tree (g1, w1) =
                     Some (Returned, fin, g2, w2)"
    unfolding demo_cycle_files_def u by simp
  from allc have allc': "\<forall>j \<in> set (concat fin). status j = Completed"
    by (simp only: list_all_iff)
  from tree have tree': "\<forall>p \<in> input_paths demo_env_ok demo_offline demo_items demo_tree.
                           p \<notin> set (written_paths (events_since demo_world w2)) \<and>
                           URL_parse demo_env_ok p = None"
    by (simp only: list_all_iff input_paths_def)
  from unchanged_tree_second_cycle_idle [OF u' f' allc' skip c1 ns tree']
  have "runCycle demo_env_ok demo_offline demo_items demo_tree (demo_globals, demo_world) =
          Some (g2, w2)"
    and "runCycle demo_env_ok demo_offline demo_items demo_tree (g2, w2) = Some (g2, w2)"
    by simp_all
  with skip c1 ns u' f' allc tree show ?thesis
    by blast
qed

text \<open>
  C8 as stated fails when an extraction fails. With a gateway that exits with code 1 the
  first cycle records nothing for \<^verbatim>\<open>/in/a.pdf\<close> and leaves the file as it was (the
  quarantine is a copy); the second cycle calls the gateway on it again.
\<close>

theorem failed_file_extracted_again_counterexample:
  "(case runCycle demo_env demo_once [] [demo_entry] (demo_globals, demo_world) of
      None \<Rightarrow> False
    | Some (g1, w1) \<Rightarrow>
        fs w1 ''/in/a.pdf'' = fs demo_world ''/in/a.pdf'' \<and>
        (case runCycle demo_env demo_once [] [demo_entry] (g1, w1) of
           None \<Rightarrow> False
         | Some (g2, w2) \<Rightarrow> spawn_results (events_since w1 w2) = [Exited 1 [] ''boom'']))"
  by code_simp

end
